theory Spec2Isabelle
  imports Complex_Main "HOL-Library.Sublist"
begin

section \<open>JavaScript values\<close>

text \<open>
  Both programs handle loosely typed JSON coming from the upstream API, so the values
  are modelled as JavaScript has them. \<open>JUndefined\<close> is the result of reading a
  missing property; it never occurs in a parsed JSON document. An object is the list
  of its own properties (keys distinct, as \<^verbatim>\<open>JSON.parse\<close> delivers them). Numbers
  are the finite values a JSON document can hold, read as rationals. A string is the
  list of the bytes of its UTF-8 form; on ASCII text \<^verbatim>\<open>slice(0, n)\<close> is \<open>take n\<close>.
\<close>

datatype js =
    JUndefined
  | JNull
  | JBool bool
  | JNum rat
  | JStr string
  | JArr "js list"
  | JObj "(string \<times> js) list"

text \<open>What a \<^verbatim>\<open>catch\<close> clause can receive: a \<^verbatim>\<open>TypeError\<close> raised by the
  language itself, or the rejection of a network request (with its message). A
  computation that can throw returns \<open>Inl\<close> of the exception; \<open>bindE\<close> runs the next
  step on a result and passes an exception on, \<open>sequenceE\<close> collects results up to
  the first exception.\<close>

datatype exn = TypeError | FetchError string

fun bindE :: "exn + 'a \<Rightarrow> ('a \<Rightarrow> exn + 'b) \<Rightarrow> exn + 'b" where
  "bindE (Inl e) f = Inl e"
| "bindE (Inr x) f = f x"

fun sequenceE :: "(exn + 'a) list \<Rightarrow> exn + 'a list" where
  "sequenceE [] = Inr []"
| "sequenceE (r # rs) = bindE r (\<lambda>x. bindE (sequenceE rs) (\<lambda>xs. Inr (x # xs)))"

fun truthy :: "js \<Rightarrow> bool" where
  "truthy JUndefined = False"
| "truthy JNull = False"
| "truthy (JBool b) = b"
| "truthy (JNum n) = (n \<noteq> 0)"
| "truthy (JStr s) = (s \<noteq> [])"
| "truthy (JArr xs) = True"
| "truthy (JObj kvs) = True"

fun nullish :: "js \<Rightarrow> bool" where
  "nullish JUndefined = True"
| "nullish JNull = True"
| "nullish v = False"

fun isArray :: "js \<Rightarrow> bool" where
  "isArray (JArr xs) = True"
| "isArray v = False"

fun elems :: "js \<Rightarrow> js list" where
  "elems (JArr xs) = xs"
| "elems v = []"

text \<open>
  Property read \<^verbatim>\<open>v.k\<close>. Reading from \<^verbatim>\<open>null\<close> or \<^verbatim>\<open>undefined\<close> throws.
  The programs only read the keys \<^verbatim>\<open>length\<close> and a fixed set of data names
  (\<^verbatim>\<open>posts\<close>, \<^verbatim>\<open>file\<close>, \<^verbatim>\<open>ext\<close>, \<^verbatim>\<open>comments\<close>, \<^verbatim>\<open>creator_id\<close>, ...), none of
  which is a member of a built-in prototype, so a primitive or an array has only
  \<^verbatim>\<open>length\<close> (strings and arrays).
\<close>

fun getProp :: "js \<Rightarrow> string \<Rightarrow> exn + js" where
  "getProp JUndefined k = Inl TypeError"
| "getProp JNull k = Inl TypeError"
| "getProp (JObj kvs) k = Inr (case map_of kvs k of Some v \<Rightarrow> v | None \<Rightarrow> JUndefined)"
| "getProp (JArr xs) k = Inr (if k = ''length'' then JNum (of_nat (length xs)) else JUndefined)"
| "getProp (JStr s) k = Inr (if k = ''length'' then JNum (of_nat (length s)) else JUndefined)"
| "getProp v k = Inr JUndefined"

text \<open>Optional chaining \<^verbatim>\<open>v?.k\<close>, \<^verbatim>\<open>a || b\<close> and \<^verbatim>\<open>a ?? b\<close>.\<close>

definition optChain :: "js \<Rightarrow> string \<Rightarrow> js" where
  "optChain v k = (case getProp v k of Inl e \<Rightarrow> JUndefined | Inr w \<Rightarrow> w)"

definition orElse :: "js \<Rightarrow> js \<Rightarrow> js" where
  "orElse a b = (if truthy a then a else b)"

definition coalesce :: "js \<Rightarrow> js \<Rightarrow> js" where
  "coalesce a b = (if nullish a then b else a)"

fun intersperse :: "string \<Rightarrow> string list \<Rightarrow> string" where
  "intersperse sep [] = []"
| "intersperse sep [x] = x"
| "intersperse sep (x # y # ys) = x @ sep @ intersperse sep (y # ys)"

text \<open>
  String conversion (\<^verbatim>\<open>String(v)\<close>, template literals, property keys, the method call
  \<^verbatim>\<open>v.toString()\<close>, assignment to a DOM string attribute). The printing of a number
  is the engine's and is taken as the parameter \<open>nts\<close>. An array prints as its elements
  joined by commas, \<^verbatim>\<open>null\<close> and \<^verbatim>\<open>undefined\<close> elements as nothing. An object
  prints as \<^verbatim>\<open>[object Object]\<close> through the inherited method, unless it has an own
  member named \<^verbatim>\<open>toString\<close>: a JSON value is never callable, so that member hides
  the inherited method and the conversion throws a \<^verbatim>\<open>TypeError\<close>.
\<close>

fun toString :: "(rat \<Rightarrow> string) \<Rightarrow> js \<Rightarrow> exn + string" where
  "toString nts JUndefined = Inr ''undefined''"
| "toString nts JNull = Inr ''null''"
| "toString nts (JBool b) = Inr (if b then ''true'' else ''false'')"
| "toString nts (JNum n) = Inr (nts n)"
| "toString nts (JStr s) = Inr s"
| "toString nts (JArr xs) =
     bindE (sequenceE (map (\<lambda>x. if nullish x then Inr [] else toString nts x) xs))
       (\<lambda>parts. Inr (intersperse '','' parts))"
| "toString nts (JObj kvs) =
     (case map_of kvs ''toString'' of
        None \<Rightarrow> Inr ''[object Object]''
      | Some m \<Rightarrow> Inl TypeError)"

text \<open>\<^verbatim>\<open>Array.prototype.join\<close> with a separator.\<close>

definition joinArr :: "(rat \<Rightarrow> string) \<Rightarrow> string \<Rightarrow> js list \<Rightarrow> exn + string" where
  "joinArr nts sep xs =
     bindE (sequenceE (map (\<lambda>x. if nullish x then Inr [] else toString nts x) xs))
       (\<lambda>parts. Inr (intersperse sep parts))"

text \<open>\<^verbatim>\<open>toLowerCase\<close> on the ASCII letters (enough to decide equality with
  \<^verbatim>\<open>'swf'\<close>: no other character lowers to one of its letters).\<close>

definition lowerChar :: "char \<Rightarrow> char" where
  "lowerChar c =
     (case map_of (zip ''ABCDEFGHIJKLMNOPQRSTUVWXYZ'' ''abcdefghijklmnopqrstuvwxyz'') c of
        Some d \<Rightarrow> d
      | None \<Rightarrow> c)"

definition toLowerCase :: "string \<Rightarrow> string" where
  "toLowerCase s = map lowerChar s"

text \<open>The method call \<^verbatim>\<open>v.toLowerCase()\<close>: only a string has the method.\<close>

fun callToLowerCase :: "js \<Rightarrow> exn + string" where
  "callToLowerCase (JStr s) = Inr (toLowerCase s)"
| "callToLowerCase v = Inl TypeError"

text \<open>The file extension test both programs use:
  \<^verbatim>\<open>(p?.file?.ext || '').toLowerCase()\<close>.\<close>

definition lowerExt :: "js \<Rightarrow> exn + string" where
  "lowerExt p = callToLowerCase (orElse (optChain (optChain p ''file'') ''ext'') (JStr []))"

section \<open>Feed controller\<close>

subsection \<open>escapeHtml\<close>

definition replaceAll :: "char \<Rightarrow> string \<Rightarrow> string \<Rightarrow> string" where
  "replaceAll c r s = concat (map (\<lambda>x. if x = c then r else [x]) s)"

text \<open>\<^verbatim>\<open>(s ?? '').toString()\<close> followed by the five replacements, in the source's
  order. The double and the single quote are written by their codes.\<close>

definition escapeHtml :: "(rat \<Rightarrow> string) \<Rightarrow> js \<Rightarrow> exn + string" where
  "escapeHtml nts s =
     bindE (toString nts (coalesce s (JStr [])))
       (\<lambda>t. Inr (replaceAll (CHR 0x27) ''&#039;''
                   (replaceAll (CHR 0x22) ''&quot;''
                     (replaceAll CHR ''>'' ''&gt;''
                       (replaceAll CHR ''<'' ''&lt;''
                         (replaceAll CHR ''&'' ''&amp;'' t))))))"

subsection \<open>Cards and the feed\<close>

text \<open>
  What the browser supplies: the printing of numbers, the subtraction operator on
  arbitrary values (used for the score total; it throws where an operand cannot be
  converted to a number), and the height at which a post's card is laid out.
\<close>

record browser =
  numToString :: "rat \<Rightarrow> string"
  jsMinus :: "js \<Rightarrow> js \<Rightarrow> exn + js"
  cardHeight :: "js \<Rightarrow> rat"

text \<open>The media element of a card, with the string its \<^verbatim>\<open>src\<close> was given.\<close>

datatype media = Video string | Image string | MissingMedia

text \<open>
  A card is the \<^verbatim>\<open>div.post-card\<close> element: its \<^verbatim>\<open>dataset.postId\<close>, its media
  element, the markup of its \<^verbatim>\<open>.post-info\<close>, its rendered height, its comment
  panel (\<open>None\<close>: no panel yet; \<open>Some b\<close>: a panel, open iff \<open>b\<close>) and the
  \<^verbatim>\<open>_outsideTapHandler\<close> property (a closure, named by a number).
\<close>

record card =
  postId :: string
  media :: media
  info :: string
  offsetHeight :: rat
  panel :: "bool option"
  outsideTapHandler :: "nat option"

text \<open>
  The feed controller's state: the cards that are children of \<^verbatim>\<open>#feed\<close> in document
  order, the scroll container's \<^verbatim>\<open>scrollTop\<close> and \<^verbatim>\<open>clientHeight\<close>, the module's
  globals, and the click listeners registered on the document (\<open>nextHandler\<close> names
  the next closure to be created).
\<close>

record feed =
  cards :: "card list"
  scrollTop :: rat
  clientHeight :: rat
  currentPage :: nat
  loading :: bool
  isForceScrolling :: bool
  isMobile :: bool
  listeners :: "nat list"
  nextHandler :: nat

definition POSTS_PER_PAGE :: nat where "POSTS_PER_PAGE = 10"
definition DEFAULT_TAGS :: string where "DEFAULT_TAGS = ''order:score rating:s''"
definition KEEP_BEHIND :: nat where "KEEP_BEHIND = 10"
definition PRELOAD_AHEAD :: nat where "PRELOAD_AHEAD = 5"

definition getCards :: "feed \<Rightarrow> card list" where
  "getCards s = cards s"

text \<open>
  Layout: the cards are stacked from the top of the feed without gaps, and the feed is
  their offset parent, so a card's \<^verbatim>\<open>offsetTop\<close> is the sum of the heights before it,
  and the height of the feed's content is the sum of all heights.
\<close>

definition offsetTop :: "card list \<Rightarrow> nat \<Rightarrow> rat" where
  "offsetTop cs i = sum_list (map offsetHeight (take i cs))"

text \<open>
  The browser keeps the scroll offset within the scrollable range, from 0 to the
  height of the content less the height of the viewport: an assignment to
  \<^verbatim>\<open>scrollTop\<close> is clamped to that range, and so is the current offset whenever the
  content has changed and the layout is brought up to date, which reading
  \<^verbatim>\<open>offsetHeight\<close> or \<^verbatim>\<open>scrollTop\<close> forces. The script's header states that the
  feed is styled \<^verbatim>\<open>overflow-anchor: none\<close>, so the browser makes no adjustment of
  its own to keep a card in place.
\<close>

definition maxScrollTop :: "card list \<Rightarrow> rat \<Rightarrow> rat" where
  "maxScrollTop cs viewport = max 0 (sum_list (map offsetHeight cs) - viewport)"

definition clampScroll :: "card list \<Rightarrow> rat \<Rightarrow> rat \<Rightarrow> rat" where
  "clampScroll cs viewport y = max 0 (min y (maxScrollTop cs viewport))"

definition relayout :: "feed \<Rightarrow> feed" where
  "relayout s = s\<lparr>scrollTop := clampScroll (cards s) (clientHeight s) (scrollTop s)\<rparr>"

definition setScrollTop :: "rat \<Rightarrow> feed \<Rightarrow> feed" where
  "setScrollTop y s = s\<lparr>scrollTop := clampScroll (cards s) (clientHeight s) y\<rparr>"

text \<open>The \<^verbatim>\<open>forEach\<close> of \<^verbatim>\<open>getCurrentIndexInFeed\<close>; \<open>None\<close> is the initial
  \<^verbatim>\<open>Infinity\<close> of \<^verbatim>\<open>bestDist\<close>.\<close>

fun nearestCard ::
  "card list \<Rightarrow> rat \<Rightarrow> card list \<Rightarrow> nat \<Rightarrow> nat \<times> rat option \<Rightarrow> nat \<times> rat option" where
  "nearestCard all mid [] i acc = acc"
| "nearestCard all mid (c # cs) i (best, bestDist) =
     (let center = offsetTop all i + offsetHeight c / 2;
          dist = \<bar>center - mid\<bar>
      in nearestCard all mid cs (Suc i)
           (if (case bestDist of None \<Rightarrow> True | Some d \<Rightarrow> dist < d)
            then (i, Some dist) else (best, bestDist)))"

definition getCurrentIndexInFeed :: "feed \<Rightarrow> nat" where
  "getCurrentIndexInFeed s =
     (let cs = getCards s in
      if length cs = 0 then 0
      else fst (nearestCard cs (scrollTop s + clientHeight s / 2) cs 0 (0, None)))"

subsection \<open>Rendering a post\<close>

text \<open>\<^verbatim>\<open>artists.length ? artists.join(', ') : 'unknown'\<close>, where only an array has
  the method \<^verbatim>\<open>join\<close>.\<close>

definition artistText :: "(rat \<Rightarrow> string) \<Rightarrow> js \<Rightarrow> exn + string" where
  "artistText nts post =
     (let artists = orElse (optChain (optChain post ''tags'') ''artist'') (JArr [])
      in bindE (getProp artists ''length'')
           (\<lambda>len. if truthy len
                  then (case artists of JArr xs \<Rightarrow> joinArr nts '', '' xs | _ \<Rightarrow> Inl TypeError)
                  else Inr ''unknown''))"

definition nl :: string where "nl = [CHR 0x0A]"
definition upArrow :: string where "upArrow = [CHR 0xE2, CHR 0xAC, CHR 0x86]"
definition downArrow :: string where "downArrow = [CHR 0xE2, CHR 0xAC, CHR 0x87]"

text \<open>
  The template literal assigned to \<^verbatim>\<open>info.innerHTML\<close>, as a function of the strings
  put into its holes: the escaped artist text, the printed score total, up and down
  counts, the printed comment count, and the escaped and cut description (\<open>None\<close> when
  the description is falsy and its \<^verbatim>\<open>div\<close> is left out).
\<close>

definition infoTemplate ::
  "string \<Rightarrow> string \<Rightarrow> string \<Rightarrow> string \<Rightarrow> string \<Rightarrow> string option \<Rightarrow> string" where
  \<open>infoTemplate artist scoreTotal up down commentCount desc =
     nl @ ''    <div><strong>Artist:</strong> '' @ artist @ ''</div>'' @ nl @
     ''    <div><strong>Score:</strong> '' @ scoreTotal @ '' ('' @ upArrow @ '' '' @
        up @ '' / '' @ downArrow @ '' '' @ down @ '')</div>'' @ nl @
     ''    <div><strong>Comments:</strong> '' @ commentCount @ ''</div>'' @ nl @
     ''    '' @
     (case desc of
        Some d \<Rightarrow> ''<div style="margin-top:6px; opacity:0.95;">'' @ d @ ''</div>''
      | None \<Rightarrow> []) @
     nl @ ''  ''\<close>

text \<open>
  Filling the holes, in the order the template evaluates them. The artist text and
  the description pass through \<open>escapeHtml\<close>; the score and the comment count are
  interpolated as they print.
\<close>

definition infoHtml ::
  "(rat \<Rightarrow> string) \<Rightarrow> string \<Rightarrow> js \<Rightarrow> js \<Rightarrow> js \<Rightarrow> js \<Rightarrow> js \<Rightarrow> exn + string" where
  "infoHtml nts artist scoreTotal up down commentCount desc =
     bindE (escapeHtml nts (JStr artist)) (\<lambda>a.
     bindE (toString nts scoreTotal) (\<lambda>t.
     bindE (toString nts up) (\<lambda>u.
     bindE (toString nts down) (\<lambda>d.
     bindE (toString nts commentCount) (\<lambda>c.
     bindE (if truthy desc
            then bindE (escapeHtml nts desc) (\<lambda>e. Inr (Some (take 300 e)))
            else Inr None) (\<lambda>descPart.
     Inr (infoTemplate a t u d c descPart)))))))"

text \<open>The media element: \<^verbatim>\<open>video\<close> or \<^verbatim>\<open>img\<close> with \<^verbatim>\<open>src\<close> assigned the URL
  (converted to a string), or the placeholder when the post has no URL.\<close>

definition mediaOf :: "(rat \<Rightarrow> string) \<Rightarrow> js \<Rightarrow> string \<Rightarrow> exn + media" where
  "mediaOf nts post ext =
     (let url = optChain (optChain post ''file'') ''url'';
          isVideo = (ext \<in> set [''webm'', ''mp4''])
      in if truthy url
         then bindE (toString nts url) (\<lambda>src. Inr (if isVideo then Video src else Image src))
         else Inr MissingMedia)"

text \<open>\<^verbatim>\<open>post?.score?.total ?? (up - down)\<close>: the subtraction is evaluated only
  when there is no total.\<close>

definition scoreTotalOf :: "browser \<Rightarrow> js \<Rightarrow> js \<Rightarrow> js \<Rightarrow> exn + js" where
  "scoreTotalOf B post up down =
     (let t = optChain (optChain post ''score'') ''total''
      in if nullish t then jsMinus B up down else Inr t)"

text \<open>\<open>addPost\<close> appends the new card as the last statement, so a post on which it
  throws leaves the feed as it was.\<close>

definition addPost :: "browser \<Rightarrow> js \<Rightarrow> feed \<Rightarrow> exn + feed" where
  "addPost B post s =
     bindE (getProp post ''id'') (\<lambda>pid.
     bindE (toString (numToString B) pid) (\<lambda>idText.
     bindE (lowerExt post) (\<lambda>ext.
     bindE (mediaOf (numToString B) post ext) (\<lambda>mediaEl.
     bindE (artistText (numToString B) post) (\<lambda>artist.
       (let up = coalesce (optChain (optChain post ''score'') ''up'') (JNum 0);
            down = coalesce (optChain (optChain post ''score'') ''down'') (JNum 0)
        in bindE (scoreTotalOf B post up down) (\<lambda>scoreTotal.
             (let d = optChain post ''description'';
                  desc = (if truthy d then d else JStr []);
                  commentCount = coalesce (optChain post ''comment_count'') (JNum 0)
              in bindE (infoHtml (numToString B) artist scoreTotal up down commentCount desc)
                   (\<lambda>markup.
                      Inr (s\<lparr>cards := cards s @
                             [\<lparr> postId = idText, media = mediaEl, info = markup,
                                offsetHeight = cardHeight B post, panel = None,
                                outsideTapHandler = None \<rparr>]\<rparr>))))))))))"

subsection \<open>Fetching a page\<close>

record postsRequest =
  reqTags :: string
  reqPage :: nat
  reqLimit :: nat

datatype 'a awaited = Rejected | Resolved 'a

text \<open>The loop over the posts of a page; an exception leaves the loop, keeping the
  cards appended so far.\<close>

fun addPosts :: "browser \<Rightarrow> js list \<Rightarrow> feed \<Rightarrow> exn option \<times> feed" where
  "addPosts B [] s = (None, s)"
| "addPosts B (post # ps) s =
     (case lowerExt post of
        Inl e \<Rightarrow> (Some e, s)
      | Inr ext \<Rightarrow>
          if ext = ''swf'' then addPosts B ps s
          else (case addPost B post s of
                  Inl e \<Rightarrow> (Some e, s)
                | Inr s' \<Rightarrow> addPosts B ps s'))"

text \<open>\<open>fetchPosts\<close> up to its first \<^verbatim>\<open>await\<close>: the re-entrancy guard and the
  request.\<close>

definition fetchPosts_start :: "feed \<Rightarrow> postsRequest option \<times> feed" where
  "fetchPosts_start s =
     (if loading s then (None, s)
      else (Some \<lparr> reqTags = DEFAULT_TAGS, reqPage = currentPage s, reqLimit = POSTS_PER_PAGE \<rparr>,
            s\<lparr>loading := True\<rparr>))"

text \<open>\<open>fetchPosts\<close> from the point where \<^verbatim>\<open>resp.json()\<close> has settled (\<open>Rejected\<close>:
  the request or the decoding threw).\<close>

definition fetchPosts_resume :: "browser \<Rightarrow> js awaited \<Rightarrow> feed \<Rightarrow> feed" where
  "fetchPosts_resume B r s =
     (case r of
        Rejected \<Rightarrow> s\<lparr>loading := False\<rparr>
      | Resolved data \<Rightarrow>
          (let posts = orElse (optChain data ''posts'') (JArr [])
           in if \<not> isArray posts \<or> length (elems posts) = 0 then s\<lparr>loading := False\<rparr>
              else (case addPosts B (elems posts) s of
                      (Some e, s') \<Rightarrow> s'\<lparr>loading := False\<rparr>
                    | (None, s') \<Rightarrow> s'\<lparr>currentPage := currentPage s' + 1, loading := False\<rparr>)))"

subsection \<open>Comment panel\<close>

definition addEventListener :: "nat \<Rightarrow> nat list \<Rightarrow> nat list" where
  "addEventListener f ls = (if f \<in> set ls then ls else ls @ [f])"

definition removeEventListener :: "nat \<Rightarrow> nat list \<Rightarrow> nat list" where
  "removeEventListener f ls = removeAll f ls"

text \<open>
  \<open>toggleComments\<close> on the card at position \<open>i\<close> of the feed, up to the request for
  the comments (what follows only fills the panel's body). Opening on a mobile device
  creates a fresh handler, stores it on the card and registers it on the document.
\<close>

definition toggleComments :: "nat \<Rightarrow> feed \<Rightarrow> feed" where
  "toggleComments i s =
     (if length (cards s) \<le> i then s
      else
        let c = cards s ! i in
        if panel c = Some True
        then (case outsideTapHandler c of
                Some f \<Rightarrow>
                  s\<lparr>cards := (cards s)[i := c\<lparr>panel := Some False, outsideTapHandler := None\<rparr>],
                    listeners := removeEventListener f (listeners s)\<rparr>
              | None \<Rightarrow> s\<lparr>cards := (cards s)[i := c\<lparr>panel := Some False\<rparr>]\<rparr>)
        else if isMobile s
        then (let handler = nextHandler s
              in s\<lparr>cards := (cards s)[i := c\<lparr>panel := Some True, outsideTapHandler := Some handler\<rparr>],
                   listeners := addEventListener handler (listeners s),
                   nextHandler := Suc handler\<rparr>)
        else s\<lparr>cards := (cards s)[i := c\<lparr>panel := Some True\<rparr>]\<rparr>)"

subsection \<open>Preload and prune\<close>

definition ensurePreload :: "feed \<Rightarrow> postsRequest option \<times> feed" where
  "ensurePreload s =
     (let cs = getCards s;
          idx = getCurrentIndexInFeed s;
          ahead = int (length cs) - int idx - 1
      in if ahead < int PRELOAD_AHEAD then fetchPosts_start s else (None, s))"

text \<open>
  The first loop of \<open>pruneAroundCurrent\<close>, \<^verbatim>\<open>for (i = cards.length - 1; i >= 0; i--)\<close>,
  with \<open>i + 1\<close> as the recursion argument. \<open>cs\<close> is the array \<open>cards\<close>; the result is
  what is left of it in the feed. A card removed here is only detached.
\<close>

fun removeBelow :: "int \<Rightarrow> card list \<Rightarrow> nat \<Rightarrow> card list" where
  "removeBelow mx cs 0 = []"
| "removeBelow mx cs (Suc i) = removeBelow mx cs i @ (if int i > mx then [] else [cs ! i])"

text \<open>
  The second loop, over \<open>cards2\<close> from index \<open>i\<close> on, carrying the accumulated height
  and the document's listeners; it returns the cards left in the feed with both.
\<close>

fun removeAbove ::
  "int \<Rightarrow> card list \<Rightarrow> nat \<Rightarrow> rat \<times> nat list \<Rightarrow> card list \<times> rat \<times> nat list" where
  "removeAbove mn [] i (h, ls) = ([], h, ls)"
| "removeAbove mn (c # cs) i (h, ls) =
     (if int i < mn
      then removeAbove mn cs (Suc i)
             (h + offsetHeight c,
              (case outsideTapHandler c of Some f \<Rightarrow> removeEventListener f ls | None \<Rightarrow> ls))
      else (case removeAbove mn cs (Suc i) (h, ls) of
              (kept, h', ls') \<Rightarrow> (c # kept, h', ls')))"

text \<open>
  \<open>pruneAroundCurrent\<close>. The index of the current card is computed before anything is
  removed. The final statement reads \<^verbatim>\<open>feed.scrollTop\<close> after the removals, when the
  browser has clamped the offset to the content that is left (\<open>relayout\<close>; the clamping
  forced inside the second loop by each \<^verbatim>\<open>offsetHeight\<close> comes to the same, the
  content only shrinking), and assigns to it (\<open>setScrollTop\<close>).
\<close>

definition pruneAroundCurrent :: "feed \<Rightarrow> feed" where
  "pruneAroundCurrent s =
     (let cs = getCards s in
      if length cs = 0 then s
      else
        let idx = getCurrentIndexInFeed s;
            mn = max 0 (int idx - int KEEP_BEHIND);
            mx = min (int (length cs) - 1) (int idx + int PRELOAD_AHEAD);
            cards2 = removeBelow mx cs (length cs);
            (kept, removedAboveHeight, ls) = removeAbove mn cards2 0 (0, listeners s);
            s' = relayout (s\<lparr>cards := kept, listeners := ls\<rparr>)
        in if removedAboveHeight > 0
           then setScrollTop (max 0 (scrollTop s' - removedAboveHeight)) s'
           else s')"

text \<open>The scroll listener installed at boot.\<close>

definition onScroll :: "feed \<Rightarrow> postsRequest option \<times> feed" where
  "onScroll s =
     (if isForceScrolling s then (None, s)
      else (case ensurePreload s of (r, s') \<Rightarrow> (r, pruneAroundCurrent s')))"

section \<open>Proxy service\<close>

text \<open>
  What the runtime supplies to the server: the printing of numbers, \<^verbatim>\<open>JSON.parse\<close>
  (\<open>None\<close> when it throws), \<^verbatim>\<open>encodeURIComponent\<close> and the base64 encoding used for
  the credential header.
\<close>

record node =
  nodeNumToString :: "rat \<Rightarrow> string"
  parseJSON :: "string \<Rightarrow> js option"
  encodeURIComponent :: "string \<Rightarrow> string"
  base64 :: "string \<Rightarrow> string"

subsection \<open>Configuration and headers\<close>

record config =
  DEFAULT_LOGIN :: "string option"
  DEFAULT_API_KEY :: "string option"

text \<open>\<^verbatim>\<open>process.env.X || null\<close>: an unset or empty variable is no credential.\<close>

definition envOrNull :: "string option \<Rightarrow> string option" where
  "envOrNull v = (case v of None \<Rightarrow> None | Some x \<Rightarrow> if x = [] then None else Some x)"

definition loadConfig :: "string option \<Rightarrow> string option \<Rightarrow> config" where
  "loadConfig envLogin envApiKey =
     \<lparr> DEFAULT_LOGIN = envOrNull envLogin, DEFAULT_API_KEY = envOrNull envApiKey \<rparr>"

definition AVATAR_LOOKUP_LIMIT :: nat where "AVATAR_LOOKUP_LIMIT = 10"

definition buildHeaders :: "node \<Rightarrow> config \<Rightarrow> (string \<times> string) list" where
  "buildHeaders N cfg =
     (let headers =
            [(''User-Agent'',
              ''LocalE621Viewer/1.0 (by '' @
                (case DEFAULT_LOGIN cfg of Some l \<Rightarrow> l | None \<Rightarrow> ''unknown'') @ '' on e621)''),
             (''Accept'', ''application/json'')]
      in case (DEFAULT_LOGIN cfg, DEFAULT_API_KEY cfg) of
           (Some l, Some k) \<Rightarrow> headers @ [(''Authorization'', ''Basic '' @ base64 N (l @ '':'' @ k))]
         | _ \<Rightarrow> headers)"

subsection \<open>Vote, favorite, unfavorite\<close>

text \<open>
  The request a mutation endpoint sends upstream. The body is the object handed to
  \<^verbatim>\<open>JSON.stringify\<close> (which leaves out a member whose value is \<^verbatim>\<open>undefined\<close>).
\<close>

record upstreamRequest =
  upUrl :: string
  upMethod :: string
  upHeaders :: "(string \<times> string) list"
  upBody :: "(string \<times> js) list"

text \<open>\<^verbatim>\<open>DEFAULT_X || x\<close>: a configured credential is a non-empty string, hence truthy.\<close>

definition mergeCredential :: "string option \<Rightarrow> js \<Rightarrow> js" where
  "mergeCredential dflt supplied = (case dflt of Some x \<Rightarrow> JStr x | None \<Rightarrow> supplied)"

definition jsonHeaders :: "node \<Rightarrow> config \<Rightarrow> (string \<times> string) list" where
  "jsonHeaders N cfg = buildHeaders N cfg @ [(''Content-Type'', ''application/json'')]"

text \<open>Each builder destructures \<^verbatim>\<open>req.body\<close> first, which throws on a missing
  body.\<close>

definition voteRequest :: "node \<Rightarrow> config \<Rightarrow> string \<Rightarrow> js \<Rightarrow> exn + upstreamRequest" where
  "voteRequest N cfg ident reqBody =
     (case getProp reqBody ''score'' of
        Inl e \<Rightarrow> Inl e
      | Inr score \<Rightarrow>
          (let login = mergeCredential (DEFAULT_LOGIN cfg) (optChain reqBody ''login'');
               api_key = mergeCredential (DEFAULT_API_KEY cfg) (optChain reqBody ''api_key'')
           in Inr \<lparr> upUrl = ''https://e621.net/posts/'' @ ident @ ''/votes.json'',
                     upMethod = ''POST'',
                     upHeaders = jsonHeaders N cfg,
                     upBody = [(''score'', score), (''login'', login), (''api_key'', api_key)] \<rparr>))"

definition favoriteRequest :: "node \<Rightarrow> config \<Rightarrow> js \<Rightarrow> exn + upstreamRequest" where
  "favoriteRequest N cfg reqBody =
     (case getProp reqBody ''post_id'' of
        Inl e \<Rightarrow> Inl e
      | Inr post_id \<Rightarrow>
          (let login = mergeCredential (DEFAULT_LOGIN cfg) (optChain reqBody ''login'');
               api_key = mergeCredential (DEFAULT_API_KEY cfg) (optChain reqBody ''api_key'')
           in Inr \<lparr> upUrl = ''https://e621.net/favorites.json'',
                     upMethod = ''POST'',
                     upHeaders = jsonHeaders N cfg,
                     upBody = [(''post_id'', post_id), (''login'', login), (''api_key'', api_key)] \<rparr>))"

definition unfavoriteRequest :: "node \<Rightarrow> config \<Rightarrow> string \<Rightarrow> js \<Rightarrow> exn + upstreamRequest" where
  "unfavoriteRequest N cfg ident reqBody =
     (case getProp reqBody ''login'' of
        Inl e \<Rightarrow> Inl e
      | Inr suppliedLogin \<Rightarrow>
          (let login = mergeCredential (DEFAULT_LOGIN cfg) suppliedLogin;
               api_key = mergeCredential (DEFAULT_API_KEY cfg) (optChain reqBody ''api_key'')
           in Inr \<lparr> upUrl = ''https://e621.net/favorites/'' @ ident @ ''.json'',
                     upMethod = ''DELETE'',
                     upHeaders = jsonHeaders N cfg,
                     upBody = [(''login'', login), (''api_key'', api_key)] \<rparr>))"

record httpResponse =
  resStatus :: nat
  resBody :: js

text \<open>The part the three endpoints share: send, decode, relay status and body; any
  exception becomes a 500 with the endpoint's message.\<close>

definition relay ::
  "(upstreamRequest \<Rightarrow> (nat \<times> js) awaited) \<Rightarrow> string \<Rightarrow> upstreamRequest \<Rightarrow> httpResponse" where
  "relay send failure rq =
     (case send rq of
        Rejected \<Rightarrow> \<lparr> resStatus = 500, resBody = JObj [(''error'', JStr failure)] \<rparr>
      | Resolved (st, result) \<Rightarrow> \<lparr> resStatus = st, resBody = result \<rparr>)"

subsection \<open>Posts\<close>

fun filterPosts :: "js list \<Rightarrow> exn + js list" where
  "filterPosts [] = Inr []"
| "filterPosts (p # ps) =
     (case lowerExt p of
        Inl e \<Rightarrow> Inl e
      | Inr ext \<Rightarrow>
          (case filterPosts ps of
             Inl e \<Rightarrow> Inl e
           | Inr kept \<Rightarrow> Inr (if ext \<noteq> ''swf'' then p # kept else kept)))"

fun setProp :: "js \<Rightarrow> string \<Rightarrow> js \<Rightarrow> js" where
  "setProp (JObj kvs) k v =
     JObj (if k \<in> fst ` set kvs then map (\<lambda>(a, b). if a = k then (a, v) else (a, b)) kvs
           else kvs @ [(k, v)])"
| "setProp w k v = w"

text \<open>The two template literals at the head of the handler, outside its
  \<^verbatim>\<open>try\<close>. The query values are what the framework parsed: strings, arrays or
  objects, or nothing.\<close>

definition finalTags :: "(rat \<Rightarrow> string) \<Rightarrow> js \<Rightarrow> exn + string" where
  "finalTags nts queryTags =
     bindE (toString nts (orElse queryTags (JStr []))) (\<lambda>tags. Inr (tags @ '' -type:swf''))"

definition postsUrl :: "node \<Rightarrow> js \<Rightarrow> js \<Rightarrow> js \<Rightarrow> exn + string" where
  "postsUrl N queryTags queryPage queryLimit =
     bindE (finalTags (nodeNumToString N) queryTags) (\<lambda>tags.
     bindE (toString (nodeNumToString N) (orElse queryPage (JNum 1))) (\<lambda>page.
     bindE (toString (nodeNumToString N) (orElse queryLimit (JNum 10))) (\<lambda>limit.
       Inr (''https://e621.net/posts.json?tags='' @ encodeURIComponent N tags @
            ''&page='' @ page @ ''&limit='' @ limit))))"

definition postsFailure :: httpResponse where
  "postsFailure = \<lparr> resStatus = 500, resBody = JObj [(''error'', JStr ''Failed to fetch posts.'')] \<rparr>"

text \<open>The handler, given what \<^verbatim>\<open>response.json()\<close> settles to for a URL. \<open>Inl\<close>: the
  exception left the handler before its \<^verbatim>\<open>try\<close>, and it sends no response.\<close>

definition postsHandler ::
  "node \<Rightarrow> (string \<Rightarrow> js awaited) \<Rightarrow> js \<Rightarrow> js \<Rightarrow> js \<Rightarrow> exn + httpResponse" where
  "postsHandler N fetchJson queryTags queryPage queryLimit =
     bindE (postsUrl N queryTags queryPage queryLimit) (\<lambda>url.
       Inr (case fetchJson url of
              Rejected \<Rightarrow> postsFailure
            | Resolved data \<Rightarrow>
                if truthy data \<and> isArray (optChain data ''posts'')
                then (case filterPosts (elems (optChain data ''posts'')) of
                        Inl e \<Rightarrow> postsFailure
                      | Inr kept \<Rightarrow> \<lparr> resStatus = 200, resBody = setProp data ''posts'' (JArr kept) \<rparr>)
                else \<lparr> resStatus = 200, resBody = data \<rparr>))"

subsection \<open>Comments\<close>

text \<open>
  What a request to the upstream API settles to: an exception (with its message), or
  a response with its status, its \<^verbatim>\<open>content-type\<close> header and its text. The upstream
  may answer the same URL differently from one request to the next: \<open>fetch url k\<close> is
  its answer to the request for \<open>url\<close> that \<open>k\<close> requests for the same URL have
  preceded while the handler ran. \<open>ask\<close> is a request made after those of the log
  \<open>requested\<close>.
\<close>

datatype fetched = Throws string | Responds nat "string option" string

type_synonym upstream = "string \<Rightarrow> nat \<Rightarrow> fetched"

definition ask :: "upstream \<Rightarrow> string list \<Rightarrow> string \<Rightarrow> fetched" where
  "ask fetch requested url = fetch url (count_list requested url)"

definition isOk :: "nat \<Rightarrow> bool" where
  "isOk st = (200 \<le> st \<and> st < 300)"

datatype lastErr =
    HttpErr string nat string string
  | ThrownErr string exn

text \<open>
  The value of a comment's \<^verbatim>\<open>avatar_url\<close>: a JSON value, or a built-in of the
  runtime that a read of the avatar map reached through \<^verbatim>\<open>Object.prototype\<close>, named
  by the key read (a function, or for \<^verbatim>\<open>__proto__\<close> the prototype itself; truthy in
  either case).
\<close>

datatype avatar = Plain js | Builtin string

fun truthyAvatar :: "avatar \<Rightarrow> bool" where
  "truthyAvatar (Plain v) = truthy v"
| "truthyAvatar (Builtin k) = True"

record comment =
  comment_id :: js
  comment_body :: js
  creator_id :: js
  creator_name :: js
  avatar_url :: avatar

definition commentUrls :: "string \<Rightarrow> string list" where
  "commentUrls pid =
     [''https://e621.net/posts/'' @ pid @ ''/comments.json'',
      ''https://e621.net/comments.json?post_id='' @ pid,
      ''https://e621.net/comments.json?search%5Bpost_id%5D='' @ pid]"

text \<open>The mapping of one upstream comment. Reading \<^verbatim>\<open>c.id\<close> comes first and throws
  on \<^verbatim>\<open>null\<close>; after it the other reads cannot throw.\<close>

definition normalizeComment :: "js \<Rightarrow> exn + comment" where
  "normalizeComment c =
     (case getProp c ''id'' of
        Inl e \<Rightarrow> Inl e
      | Inr i \<Rightarrow>
          Inr \<lparr> comment_id = i,
                comment_body = orElse (optChain c ''body'') (orElse (optChain c ''body_html'') (JStr [])),
                creator_id = orElse (optChain c ''creator_id'') JNull,
                creator_name =
                  orElse (optChain c ''creator_name'') (orElse (optChain c ''author'') (JStr ''Unknown'')),
                avatar_url = Plain JNull \<rparr>)"

fun normalizeAll :: "js list \<Rightarrow> exn + comment list" where
  "normalizeAll [] = Inr []"
| "normalizeAll (c # cs) =
     (case normalizeComment c of
        Inl e \<Rightarrow> Inl e
      | Inr r \<Rightarrow> (case normalizeAll cs of Inl e \<Rightarrow> Inl e | Inr rs \<Rightarrow> Inr (r # rs)))"

text \<open>
  \<^verbatim>\<open>Array.from(new Set(xs))\<close>: first occurrences, in order. Two entries are the same
  for the set when they are equal primitives; arrays and objects taken from different
  comments are different objects.
\<close>

fun isPrimitive :: "js \<Rightarrow> bool" where
  "isPrimitive (JArr xs) = False"
| "isPrimitive (JObj kvs) = False"
| "isPrimitive v = True"

definition sameValueZero :: "js \<Rightarrow> js \<Rightarrow> bool" where
  "sameValueZero a b = (isPrimitive a \<and> a = b)"

definition setAdd :: "js list \<Rightarrow> js \<Rightarrow> js list" where
  "setAdd seen x = (if \<exists>y \<in> set seen. sameValueZero y x then seen else seen @ [x])"

definition newSet :: "js list \<Rightarrow> js list" where
  "newSet xs = foldl setAdd [] xs"

definition avatarIdsOf :: "comment list \<Rightarrow> js list" where
  "avatarIdsOf results =
     take AVATAR_LOOKUP_LIMIT (newSet (filter truthy (map creator_id results)))"

definition userUrl :: "(rat \<Rightarrow> string) \<Rightarrow> js \<Rightarrow> exn + string" where
  "userUrl nts creatorId =
     bindE (toString nts creatorId) (\<lambda>t. Inr (''https://e621.net/users/'' @ t @ ''.json''))"

text \<open>What a lookup makes of the answer to its request. Every failure is caught and
  yields \<^verbatim>\<open>null\<close>; a request that times out is one that throws.\<close>

definition avatarOfResponse :: "node \<Rightarrow> fetched \<Rightarrow> js" where
  "avatarOfResponse N f =
     (case f of
        Throws m \<Rightarrow> JNull
      | Responds st ctype uText \<Rightarrow>
          if \<not> isOk st then JNull
          else (case parseJSON N uText of
                  None \<Rightarrow> JNull
                | Some uJson \<Rightarrow>
                    (case getProp uJson ''user'' of
                       Inl e \<Rightarrow> JNull
                     | Inr usr \<Rightarrow>
                         (let u = orElse usr uJson
                          in orElse (optChain u ''avatar_url'')
                               (orElse (optChain (optChain u ''avatar'') ''url'')
                                  (orElse (optChain u ''avatar'') JNull))))))"

text \<open>
  One lookup: the avatar it pairs with the creator id, and the log of requests after
  it. The URL is built inside the lookup's \<^verbatim>\<open>try\<close>: an id that cannot be converted
  yields \<^verbatim>\<open>null\<close> without a request. The lookups are started in the order of the
  ids, each sending its request at once, and share no state: each result depends on
  the answer to its own request only.
\<close>

definition lookupAvatar :: "node \<Rightarrow> upstream \<Rightarrow> string list \<Rightarrow> js \<Rightarrow> js \<times> string list" where
  "lookupAvatar N fetch requested creatorId =
     (case userUrl (nodeNumToString N) creatorId of
        Inl e \<Rightarrow> (JNull, requested)
      | Inr url \<Rightarrow> (avatarOfResponse N (ask fetch requested url), requested @ [url]))"

fun lookupAll :: "node \<Rightarrow> upstream \<Rightarrow> js list \<Rightarrow> string list \<Rightarrow> (js \<times> js) list \<times> string list" where
  "lookupAll N fetch [] requested = ([], requested)"
| "lookupAll N fetch (creatorId # ids) requested =
     (case lookupAvatar N fetch requested creatorId of
        (found, requested') \<Rightarrow>
          (case lookupAll N fetch ids requested' of
             (avatars, requested'') \<Rightarrow> ((creatorId, found) # avatars, requested'')))"

text \<open>
  \<^verbatim>\<open>Object.fromEntries\<close> and the read \<^verbatim>\<open>avatarMap[id]\<close>. Keys are the ids converted
  to strings (which can throw); a later entry replaces an earlier one with the same
  key. A key that is not an entry is looked for in \<^verbatim>\<open>Object.prototype\<close>, whose
  members are listed.
\<close>

definition objectPrototypeKeys :: "string list" where
  "objectPrototypeKeys =
     [''constructor'', ''__defineGetter__'', ''__defineSetter__'', ''hasOwnProperty'',
      ''__lookupGetter__'', ''__lookupSetter__'', ''isPrototypeOf'', ''propertyIsEnumerable'',
      ''toString'', ''valueOf'', ''__proto__'', ''toLocaleString'']"

definition fromEntries :: "(rat \<Rightarrow> string) \<Rightarrow> (js \<times> js) list \<Rightarrow> exn + (string \<times> js) list" where
  "fromEntries nts entries =
     sequenceE (map (\<lambda>(k, v). bindE (toString nts k) (\<lambda>key. Inr (key, v))) entries)"

definition readKey :: "(string \<times> js) list \<Rightarrow> string \<Rightarrow> avatar" where
  "readKey m k =
     (case map_of (rev m) k of
        Some v \<Rightarrow> Plain v
      | None \<Rightarrow> if k \<in> set objectPrototypeKeys then Builtin k else Plain JUndefined)"

text \<open>The body of the loop over the results:
  \<^verbatim>\<open>if (item.creator_id && avatarMap[item.creator_id]) item.avatar_url = ...\<close>\<close>

definition mergeAvatar :: "(rat \<Rightarrow> string) \<Rightarrow> (string \<times> js) list \<Rightarrow> comment \<Rightarrow> exn + comment" where
  "mergeAvatar nts avatarMap item =
     (if truthy (creator_id item)
      then bindE (toString nts (creator_id item))
             (\<lambda>key. Inr (if truthyAvatar (readKey avatarMap key)
                         then item\<lparr>avatar_url := readKey avatarMap key\<rparr>
                         else item))
      else Inr item)"

text \<open>The enrichment step, after the requests of the log \<open>requested\<close>: the comments
  with their avatars, or the exception that left it, and the log after it.\<close>

definition enrich ::
  "node \<Rightarrow> upstream \<Rightarrow> comment list \<Rightarrow> string list \<Rightarrow> (exn + comment list) \<times> string list" where
  "enrich N fetch results requested =
     (let avatarIds = avatarIdsOf results
      in if length avatarIds = 0 then (Inr results, requested)
         else (case lookupAll N fetch avatarIds requested of
                 (avatars, requested') \<Rightarrow>
                   (bindE (fromEntries (nodeNumToString N) avatars)
                      (\<lambda>avatarMap. sequenceE (map (mergeAvatar (nodeNumToString N) avatarMap) results)),
                    requested')))"

text \<open>\<^verbatim>\<open>Array.isArray(payload) ? payload : (payload.comments || [])\<close>\<close>

definition commentsOf :: "js \<Rightarrow> exn + js" where
  "commentsOf payload =
     (if isArray payload then Inr payload
      else (case getProp payload ''comments'' of
              Inl e \<Rightarrow> Inl e
            | Inr v \<Rightarrow> Inr (orElse v (JArr []))))"

text \<open>
  One iteration of the loop over the candidate URLs, after the requests of the log
  \<open>requested\<close>: \<open>Inl\<close> is the value assigned to \<^verbatim>\<open>lastErr\<close> before going on to the
  next candidate, \<open>Inr\<close> the list sent with \<^verbatim>\<open>res.json\<close>. The second component is
  the log after it.
\<close>

definition attempt ::
  "node \<Rightarrow> upstream \<Rightarrow> string list \<Rightarrow> string \<Rightarrow> (lastErr + comment list) \<times> string list" where
  "attempt N fetch requested url =
     (case ask fetch requested url of
        Throws m \<Rightarrow> (Inl (ThrownErr url (FetchError m)), requested @ [url])
      | Responds st ctype text \<Rightarrow>
          (let ct = toLowerCase (case ctype of Some h \<Rightarrow> h | None \<Rightarrow> [])
           in if \<not> isOk st then (Inl (HttpErr url st ct (take 250 text)), requested @ [url])
              else (case parseJSON N text of
                      None \<Rightarrow> (Inl (HttpErr url st ct (take 250 text)), requested @ [url])
                    | Some payload \<Rightarrow>
                        (case commentsOf payload of
                           Inl e \<Rightarrow> (Inl (ThrownErr url e), requested @ [url])
                         | Inr comments \<Rightarrow>
                             if \<not> isArray comments
                             then (Inl (HttpErr url st ct (take 250 text)), requested @ [url])
                             else (case normalizeAll (take 50 (elems comments)) of
                                     Inl e \<Rightarrow> (Inl (ThrownErr url e), requested @ [url])
                                   | Inr results \<Rightarrow>
                                       (case enrich N fetch results (requested @ [url]) of
                                          (Inl e, requested') \<Rightarrow> (Inl (ThrownErr url e), requested')
                                        | (Inr enriched, requested') \<Rightarrow>
                                            (Inr enriched, requested')))))))"

datatype commentsResponse =
    CommentsOk "comment list"
  | BadGateway "lastErr option"

text \<open>The loop \<^verbatim>\<open>for (const url of urls)\<close>, carrying \<^verbatim>\<open>lastErr\<close> and the log of
  requests; leaving it at the end is the 502 response.\<close>

fun tryUrls ::
  "node \<Rightarrow> upstream \<Rightarrow> string list \<Rightarrow> lastErr option \<Rightarrow> string list
     \<Rightarrow> commentsResponse \<times> string list" where
  "tryUrls N fetch [] lastE requested = (BadGateway lastE, requested)"
| "tryUrls N fetch (url # urls) lastE requested =
     (case attempt N fetch requested url of
        (Inl e, requested') \<Rightarrow> tryUrls N fetch urls (Some e) requested'
      | (Inr results, requested') \<Rightarrow> (CommentsOk results, requested'))"

definition commentsHandler ::
  "node \<Rightarrow> upstream \<Rightarrow> string \<Rightarrow> commentsResponse \<times> string list" where
  "commentsHandler N fetch pid = tryUrls N fetch (commentUrls pid) None []"

section \<open>Initial state and an environment for the examples\<close>

text \<open>The module's globals as the script sets them, for a viewport of the given
  height; \<open>isMobile\<close> is what the boot handler reads off the user agent.\<close>

definition initialFeed :: "rat \<Rightarrow> bool \<Rightarrow> feed" where
  "initialFeed viewport mobile =
     \<lparr> cards = [], scrollTop = 0, clientHeight = viewport, currentPage = 1, loading = False,
       isForceScrolling = False, isMobile = mobile, listeners = [], nextHandler = 0 \<rparr>"

text \<open>A number printer for the examples: decimal digits for a natural number (the
  examples print nothing else), and subtraction on numbers (the examples subtract
  nothing else).\<close>

definition digitChar :: "nat \<Rightarrow> char" where
  "digitChar d = ''0123456789'' ! d"

fun showNat :: "nat \<Rightarrow> string" where
  "showNat n = (if n < 10 then [digitChar n] else showNat (n div 10) @ [digitChar (n mod 10)])"

declare showNat.simps [simp del]

definition sampleNts :: "rat \<Rightarrow> string" where
  "sampleNts r = (if 0 \<le> r \<and> r = of_int \<lfloor>r\<rfloor> then showNat (nat \<lfloor>r\<rfloor>) else ''NaN'')"

fun sampleMinus :: "js \<Rightarrow> js \<Rightarrow> exn + js" where
  "sampleMinus (JNum a) (JNum b) = Inr (JNum (a - b))"
| "sampleMinus a b = Inl TypeError"

text \<open>A browser in which every card is as high as a viewport of 100 pixels.\<close>

definition sampleBrowser :: browser where
  "sampleBrowser = \<lparr> numToString = sampleNts, jsMinus = sampleMinus, cardHeight = (\<lambda>p. 100) \<rparr>"

text \<open>A post whose artist tags and description carry markup, and the feed after
  rendering it.\<close>

definition samplePost :: js where
  "samplePost =
     JObj [(''id'', JNum 7),
           (''file'', JObj [(''ext'', JStr ''png''), (''url'', JStr ''a.png'')]),
           (''tags'', JObj [(''artist'', JArr [JStr ''<b>Tom'', JStr ''Jerry & co''])]),
           (''score'', JObj [(''up'', JNum 3), (''down'', JNum 1), (''total'', JNum 2)]),
           (''comment_count'', JNum 4),
           (''description'', JStr ''<script>alert(1)</script>'')]"

definition sampleRendered :: feed where
  "sampleRendered =
     (case addPost sampleBrowser samplePost (initialFeed 100 False) of
        Inr s' \<Rightarrow> s'
      | Inl e \<Rightarrow> initialFeed 100 False)"

section \<open>Notions used in the statements\<close>

subsection \<open>Markup\<close>

text \<open>The entity each character ends up as, for stating what the chain of
  replacements computes; the five entities; a text in which every \<^verbatim>\<open>&\<close> starts one
  of them.\<close>

definition escapeChar :: "char \<Rightarrow> string" where
  "escapeChar c =
     (if c = CHR ''&'' then ''&amp;''
      else if c = CHR ''<'' then ''&lt;''
      else if c = CHR ''>'' then ''&gt;''
      else if c = CHR 0x22 then ''&quot;''
      else if c = CHR 0x27 then ''&#039;''
      else [c])"

definition entities :: "string list" where
  "entities = [''&amp;'', ''&lt;'', ''&gt;'', ''&quot;'', ''&#039;'']"

fun ampsEscaped :: "string \<Rightarrow> bool" where
  "ampsEscaped [] = True"
| "ampsEscaped (c # cs) =
     ((c = CHR ''&'' \<longrightarrow> (\<exists>e \<in> set entities. prefix e (c # cs))) \<and> ampsEscaped cs)"

text \<open>The characters that open or close a tag or an attribute value.\<close>

definition isMarkup :: "char \<Rightarrow> bool" where
  "isMarkup c = (c = CHR ''<'' \<or> c = CHR ''>'' \<or> c = CHR 0x22 \<or> c = CHR 0x27)"

text \<open>
  The values \<open>addPost\<close> puts into the template, read off the post: the text a value
  prints as and the escaped text of a value (both empty where the conversion throws),
  the artist text, the score, the comment count and the description.
\<close>

definition printed :: "(rat \<Rightarrow> string) \<Rightarrow> js \<Rightarrow> string" where
  "printed nts v = (case toString nts v of Inr t \<Rightarrow> t | Inl e \<Rightarrow> [])"

definition escaped :: "(rat \<Rightarrow> string) \<Rightarrow> js \<Rightarrow> string" where
  "escaped nts v = concat (map escapeChar (printed nts v))"

definition artistOf :: "(rat \<Rightarrow> string) \<Rightarrow> js \<Rightarrow> string" where
  "artistOf nts post = (case artistText nts post of Inr t \<Rightarrow> t | Inl e \<Rightarrow> [])"

definition scoreUp :: "js \<Rightarrow> js" where
  "scoreUp post = coalesce (optChain (optChain post ''score'') ''up'') (JNum 0)"

definition scoreDown :: "js \<Rightarrow> js" where
  "scoreDown post = coalesce (optChain (optChain post ''score'') ''down'') (JNum 0)"

definition scoreTotal :: "browser \<Rightarrow> js \<Rightarrow> js" where
  "scoreTotal B post =
     (case scoreTotalOf B post (scoreUp post) (scoreDown post) of Inr t \<Rightarrow> t | Inl e \<Rightarrow> JUndefined)"

definition commentCount :: "js \<Rightarrow> js" where
  "commentCount post = coalesce (optChain post ''comment_count'') (JNum 0)"

definition description :: "js \<Rightarrow> js" where
  "description post = optChain post ''description''"

text \<open>
  A post whose score and comment count are as the upstream API has them, numbers (or
  missing), and a browser whose numbers print without markup characters and whose
  difference of two numbers is a number.
\<close>

fun numberOrMissing :: "js \<Rightarrow> bool" where
  "numberOrMissing (JNum n) = True"
| "numberOrMissing JUndefined = True"
| "numberOrMissing JNull = True"
| "numberOrMissing v = False"

definition numericPost :: "js \<Rightarrow> bool" where
  "numericPost post =
     (numberOrMissing (optChain (optChain post ''score'') ''up'')
      \<and> numberOrMissing (optChain (optChain post ''score'') ''down'')
      \<and> numberOrMissing (optChain (optChain post ''score'') ''total'')
      \<and> numberOrMissing (optChain post ''comment_count''))"

definition plainNumbers :: "browser \<Rightarrow> bool" where
  "plainNumbers B =
     ((\<forall>r. filter isMarkup (numToString B r) = [])
      \<and> (\<forall>a b. \<exists>c. jsMinus B (JNum a) (JNum b) = Inr (JNum c)))"

subsection \<open>Extensions\<close>

text \<open>A post whose file extension is \<^verbatim>\<open>swf\<close>, in any of its eight spellings; a
  post whose extension is a string, or falsy (missing); the id a post's card carries.\<close>

definition swfSpellings :: "string list" where
  "swfSpellings = [''swf'', ''swF'', ''sWf'', ''sWF'', ''Swf'', ''SwF'', ''SWf'', ''SWF'']"

definition hasSwfExt :: "js \<Rightarrow> bool" where
  "hasSwfExt p =
     (case optChain (optChain p ''file'') ''ext'' of
        JStr e \<Rightarrow> e \<in> set swfSpellings
      | _ \<Rightarrow> False)"

definition extIsText :: "js \<Rightarrow> bool" where
  "extIsText p =
     (case optChain (optChain p ''file'') ''ext'' of
        JStr e \<Rightarrow> True
      | v \<Rightarrow> \<not> truthy v)"

definition printedId :: "(rat \<Rightarrow> string) \<Rightarrow> js \<Rightarrow> string" where
  "printedId nts p = printed nts (optChain p ''id'')"

subsection \<open>The window of a prune\<close>

text \<open>What the second loop of \<open>pruneAroundCurrent\<close> does to the document's listeners
  when it removes the cards \<open>cs\<close>.\<close>

fun detachAll :: "card list \<Rightarrow> nat list \<Rightarrow> nat list" where
  "detachAll [] ls = ls"
| "detachAll (c # cs) ls =
     detachAll cs (case outsideTapHandler c of Some f \<Rightarrow> removeEventListener f ls | None \<Rightarrow> ls)"

text \<open>The keep-window of a prune, the cards it removes on either side, and the height
  removed above.\<close>

definition windowStart :: "feed \<Rightarrow> int" where
  "windowStart s = max 0 (int (getCurrentIndexInFeed s) - int KEEP_BEHIND)"

definition windowEnd :: "feed \<Rightarrow> int" where
  "windowEnd s =
     min (int (length (getCards s)) - 1) (int (getCurrentIndexInFeed s) + int PRELOAD_AHEAD)"

definition removedAbove :: "feed \<Rightarrow> card list" where
  "removedAbove s = take (nat (windowStart s)) (getCards s)"

definition removedBelow :: "feed \<Rightarrow> card list" where
  "removedBelow s = drop (nat (windowEnd s + 1)) (getCards s)"

definition removedAboveHeight :: "feed \<Rightarrow> rat" where
  "removedAboveHeight s = sum_list (map offsetHeight (removedAbove s))"

text \<open>The distance the current-card search compares, and the layout the script's header
  describes: every card as tall as the viewport, the offset within the scrollable
  range.\<close>

definition centerDist :: "card list \<Rightarrow> rat \<Rightarrow> nat \<Rightarrow> rat" where
  "centerDist cs mid j = \<bar>offsetTop cs j + offsetHeight (cs ! j) / 2 - mid\<bar>"

definition uniformLayout :: "feed \<Rightarrow> bool" where
  "uniformLayout s =
     (0 < clientHeight s \<and> 0 \<le> scrollTop s
      \<and> scrollTop s \<le> maxScrollTop (cards s) (clientHeight s)
      \<and> list_all (\<lambda>c. offsetHeight c = clientHeight s) (cards s))"

subsection \<open>Example feeds\<close>

text \<open>A feed of \<open>n\<close> bare cards of one height, scrolled to \<open>y\<close>; twenty cards as tall
  as the viewport, scrolled to the twelfth.\<close>

definition plainCard :: "nat \<Rightarrow> rat \<Rightarrow> card" where
  "plainCard k h =
     \<lparr> postId = showNat k, media = MissingMedia, info = [], offsetHeight = h, panel = None,
       outsideTapHandler = None \<rparr>"

definition plainFeed :: "nat \<Rightarrow> rat \<Rightarrow> rat \<Rightarrow> rat \<Rightarrow> feed" where
  "plainFeed n h viewport y =
     (initialFeed viewport False)\<lparr>cards := map (\<lambda>k. plainCard k h) [0..<n], scrollTop := y\<rparr>"

definition midFeed :: feed where
  "midFeed = plainFeed 20 100 100 1100"

text \<open>Pages as the proxy delivers them, for posts that carry only an id, and the card
  \<open>addPost\<close> makes of such a post in the example browser.\<close>

definition postWithId :: "nat \<Rightarrow> js" where
  "postWithId k = JObj [(''id'', JNum (of_nat k))]"

definition pageOf :: "nat list \<Rightarrow> js" where
  "pageOf ks = JObj [(''posts'', JArr (map postWithId ks))]"

definition sampleCard :: "nat \<Rightarrow> card" where
  "sampleCard k =
     \<lparr> postId = showNat k, media = MissingMedia,
       info = infoTemplate ''unknown'' ''0'' ''0'' ''0'' ''0'' None,
       offsetHeight = 100, panel = None, outsideTapHandler = None \<rparr>"

definition sampleState :: "nat list \<Rightarrow> rat \<Rightarrow> nat \<Rightarrow> bool \<Rightarrow> feed" where
  "sampleState ids y page busy =
     \<lparr> cards = map sampleCard ids, scrollTop = y, clientHeight = 100, currentPage = page,
       loading = busy, isForceScrolling = False, isMobile = False, listeners = [],
       nextHandler = 0 \<rparr>"

text \<open>
  A session on a desktop browser with a viewport of 100 pixels. The first page of ten
  posts arrives. The user moves to the second card; the scroll event finds enough cards
  ahead and prunes. The user moves to the third card; the scroll event starts the
  request for the second page. That page arrives. The user moves to the fourth card,
  and the scroll event prunes again.
\<close>

definition run1 :: feed where
  "run1 = fetchPosts_resume sampleBrowser (Resolved (pageOf [0, 1, 2, 3, 4, 5, 6, 7, 8, 9]))
            (snd (fetchPosts_start (initialFeed 100 False)))"

definition run2 :: feed where
  "run2 = snd (onScroll (setScrollTop 100 run1))"

definition run3 :: feed where
  "run3 = snd (onScroll (setScrollTop 200 run2))"

definition run4 :: feed where
  "run4 = fetchPosts_resume sampleBrowser (Resolved (pageOf [10, 11, 12, 13, 14, 15, 16, 17, 18, 19])) run3"

definition run5 :: feed where
  "run5 = snd (onScroll (setScrollTop 300 run4))"

text \<open>
  The session goes on, one card at a time. At the fifth card the scroll event starts
  the request for the third page, which arrives; at the seventh it starts the request
  for the fourth page, which arrives; at the ninth it starts the request for the fifth
  page, which is still pending when the user reaches the last card rendered:
  \<open>run8\<close> is the feed with the user at the card before the last, \<open>run9\<close> the feed
  when the user has moved to the last card and the scroll listener is about to run.
\<close>

definition scrollTo :: "rat \<Rightarrow> feed \<Rightarrow> feed" where
  "scrollTo y s = snd (onScroll (setScrollTop y s))"

definition run6 :: feed where
  "run6 = fetchPosts_resume sampleBrowser (Resolved (pageOf [20, 21, 22, 23, 24, 25, 26, 27, 28, 29]))
            (scrollTo 400 run5)"

definition run7 :: feed where
  "run7 = fetchPosts_resume sampleBrowser (Resolved (pageOf [30, 31, 32, 33, 34, 35, 36, 37, 38, 39]))
            (scrollTo 600 (scrollTo 500 run6))"

definition run8 :: feed where
  "run8 = scrollTo 1100 (scrollTo 1000 (scrollTo 900 (scrollTo 800 (scrollTo 700 run7))))"

definition run9 :: feed where
  "run9 = setScrollTop 1100 run8"

text \<open>
  A session on a mobile browser: a page of seven posts arrives, the user is at the last
  card and opens its comments, then swipes back to the first card, where the window is
  pruned.
\<close>

definition leak1 :: feed where
  "leak1 = fetchPosts_resume sampleBrowser (Resolved (pageOf [0, 1, 2, 3, 4, 5, 6]))
             (snd (fetchPosts_start (initialFeed 100 True)))"

definition leak2 :: feed where
  "leak2 = toggleComments 6 (leak1\<lparr>scrollTop := 600\<rparr>)"

definition leak3 :: feed where
  "leak3 = pruneAroundCurrent (leak2\<lparr>scrollTop := 0\<rparr>)"

section \<open>Notions used in the statements about the proxy\<close>

text \<open>A member of the body a mutation endpoint forwards, and the credentials the
  endpoints are expected to forward: the server's where configured, else the
  client's.\<close>

definition bodyField :: "upstreamRequest \<Rightarrow> string \<Rightarrow> js" where
  "bodyField rq k = (case map_of (upBody rq) k of Some v \<Rightarrow> v | None \<Rightarrow> JUndefined)"

definition forwardedLogin :: "config \<Rightarrow> js \<Rightarrow> js" where
  "forwardedLogin cfg reqBody =
     (case DEFAULT_LOGIN cfg of Some l \<Rightarrow> JStr l | None \<Rightarrow> optChain reqBody ''login'')"

definition forwardedApiKey :: "config \<Rightarrow> js \<Rightarrow> js" where
  "forwardedApiKey cfg reqBody =
     (case DEFAULT_API_KEY cfg of Some k \<Rightarrow> JStr k | None \<Rightarrow> optChain reqBody ''api_key'')"

subsection \<open>Candidates\<close>

text \<open>
  The normal form of one upstream comment, field by field; the comments a parsed body
  holds; the normalized first 50 of them and their non-null creator ids; a value that
  can be converted to a string.
\<close>

definition upstreamName :: "js \<Rightarrow> js" where
  "upstreamName c =
     orElse (optChain c ''creator_name'') (orElse (optChain c ''author'') (JStr ''Unknown''))"

definition upstreamBody :: "js \<Rightarrow> js" where
  "upstreamBody c = orElse (optChain c ''body'') (orElse (optChain c ''body_html'') (JStr []))"

definition normalized :: "js \<Rightarrow> comment" where
  "normalized c =
     \<lparr> comment_id = optChain c ''id'',
       comment_body = upstreamBody c,
       creator_id = orElse (optChain c ''creator_id'') JNull,
       creator_name = upstreamName c,
       avatar_url = Plain JNull \<rparr>"

definition commentList :: "js \<Rightarrow> js list" where
  "commentList payload =
     (if isArray payload then elems payload else elems (optChain payload ''comments''))"

definition normalizedComments :: "js \<Rightarrow> comment list" where
  "normalizedComments payload = map normalized (take 50 (commentList payload))"

definition creatorIds :: "js \<Rightarrow> js list" where
  "creatorIds payload = filter (\<lambda>k. k \<noteq> JNull) (map creator_id (normalizedComments payload))"

definition convertible :: "(rat \<Rightarrow> string) \<Rightarrow> js \<Rightarrow> bool" where
  "convertible nts v = (case toString nts v of Inl e \<Rightarrow> False | Inr t \<Rightarrow> True)"

text \<open>
  The condition under which a candidate's answer is used: the request does not throw,
  the status is a success, the body parses, the parsed body is an array, or is not
  \<^verbatim>\<open>null\<close> and has a \<open>comments\<close> member that is falsy (absent, \<^verbatim>\<open>null\<close>, ...) or an
  array, there is no \<^verbatim>\<open>null\<close> among the first 50 comments, and each of their
  non-null creator ids can be converted to a string. \<open>diagnostic\<close> is what a rejected
  candidate leaves in \<^verbatim>\<open>lastErr\<close>.
\<close>

definition shapeOk :: "js \<Rightarrow> bool" where
  "shapeOk payload =
     (isArray payload \<or>
      (\<not> nullish payload \<and>
       (\<not> truthy (optChain payload ''comments'') \<or> isArray (optChain payload ''comments''))))"

definition wellFormed :: "js \<Rightarrow> bool" where
  "wellFormed payload =
     (shapeOk payload \<and> list_all (\<lambda>c. \<not> nullish c) (take 50 (commentList payload)))"

definition accepted :: "node \<Rightarrow> fetched \<Rightarrow> bool" where
  "accepted N f =
     (case f of
        Throws m \<Rightarrow> False
      | Responds st ctype text \<Rightarrow>
          isOk st \<and>
          (case parseJSON N text of
             None \<Rightarrow> False
           | Some payload \<Rightarrow>
               wellFormed payload
               \<and> list_all (convertible (nodeNumToString N)) (creatorIds payload)))"

definition diagnostic :: "node \<Rightarrow> string \<Rightarrow> fetched \<Rightarrow> lastErr" where
  "diagnostic N url f =
     (case f of
        Throws m \<Rightarrow> ThrownErr url (FetchError m)
      | Responds st ctype text \<Rightarrow>
          (let http = HttpErr url st (toLowerCase (case ctype of Some h \<Rightarrow> h | None \<Rightarrow> []))
                        (take 250 text)
           in if \<not> isOk st then http
              else (case parseJSON N text of
                      None \<Rightarrow> http
                    | Some payload \<Rightarrow>
                        if nullish payload \<or> shapeOk payload then ThrownErr url TypeError
                        else http)))"

text \<open>
  The requests a candidate's avatar lookups make: none unless its answer gets as far
  as the enrichment, and then one for each of the ids looked up that can be converted
  to a string, in order. \<open>requestsOf\<close> is the log of the handler over rejected
  candidates, each asked once; \<open>served\<close> is what an accepted body leads to, after the
  requests of a log.
\<close>

definition userUrlText :: "(rat \<Rightarrow> string) \<Rightarrow> js \<Rightarrow> string" where
  "userUrlText nts k =
     ''https://e621.net/users/'' @ (case toString nts k of Inr t \<Rightarrow> t | Inl e \<Rightarrow> []) @ ''.json''"

definition lookupUrls :: "(rat \<Rightarrow> string) \<Rightarrow> js list \<Rightarrow> string list" where
  "lookupUrls nts ids = map (userUrlText nts) (filter (convertible nts) ids)"

definition lookupsOf :: "node \<Rightarrow> fetched \<Rightarrow> string list" where
  "lookupsOf N f =
     (case f of
        Throws m \<Rightarrow> []
      | Responds st ctype text \<Rightarrow>
          if \<not> isOk st then []
          else (case parseJSON N text of
                  None \<Rightarrow> []
                | Some payload \<Rightarrow>
                    if wellFormed payload
                    then lookupUrls (nodeNumToString N) (avatarIdsOf (normalizedComments payload))
                    else []))"

definition requestsOf :: "node \<Rightarrow> upstream \<Rightarrow> string list \<Rightarrow> string list" where
  "requestsOf N fetch urls = concat (map (\<lambda>u. u # lookupsOf N (fetch u 0)) urls)"

definition served ::
  "node \<Rightarrow> upstream \<Rightarrow> string list \<Rightarrow> js \<Rightarrow> (exn + comment list) \<times> string list" where
  "served N fetch requested payload = enrich N fetch (normalizedComments payload) requested"

definition isUserUrl :: "string \<Rightarrow> bool" where
  "isUserUrl u = prefix ''https://e621.net/users/'' u"

subsection \<open>Avatars\<close>




definition lookupResult :: "node \<Rightarrow> upstream \<Rightarrow> string list \<Rightarrow> js \<Rightarrow> js" where
  "lookupResult N fetch requested k =
     avatarOfResponse N (ask fetch requested (userUrlText (nodeNumToString N) k))"


text \<open>
  Creator ids as the upstream API has them, or any like them: primitive values
  (numbers, strings) of which no two convert to the same string and none converts to
  the name of a member of \<^verbatim>\<open>Object.prototype\<close>.
\<close>

definition plainIds :: "(rat \<Rightarrow> string) \<Rightarrow> js list \<Rightarrow> bool" where
  "plainIds nts ids =
     (list_all isPrimitive ids
      \<and> distinct (map (userUrlText nts) (remdups ids))
      \<and> list_all (\<lambda>k. toString nts k \<notin> Inr ` set objectPrototypeKeys) ids)"

subsection \<open>Example requests and upstreams\<close>

text \<open>The vote of the specification's scenario, and the parser of the examples:
  \<^verbatim>\<open>JSON.parse\<close> on the documents the examples use (any other text counts as
  unparsable).\<close>

definition scenarioVoteBody :: js where
  "scenarioVoteBody = JObj [(''score'', JNum 1), (''login'', JStr ''x''), (''api_key'', JStr ''y'')]"

definition scenarioCommentsText :: string where
  \<open>scenarioCommentsText = ''{"comments":[{"id":9,"body":"hi","creator_id":5}]}''\<close>

definition scenarioCommentsDoc :: js where
  "scenarioCommentsDoc =
     JObj [(''comments'',
            JArr [JObj [(''id'', JNum 9), (''body'', JStr ''hi''), (''creator_id'', JNum 5)]])]"

definition sampleUserText :: string where
  \<open>sampleUserText = ''{"avatar_url":"a.png"}''\<close>

definition unprintableText :: string where
  \<open>unprintableText = ''[{"id":1,"creator_id":{"toString":1}},{"id":2,"creator_id":5}]''\<close>

definition unprintableDoc :: js where
  "unprintableDoc =
     JArr [JObj [(''id'', JNum 1), (''creator_id'', JObj [(''toString'', JNum 1)])],
           JObj [(''id'', JNum 2), (''creator_id'', JNum 5)]]"

definition sampleParse :: "string \<Rightarrow> js option" where
  "sampleParse t =
     (if t = scenarioCommentsText then Some scenarioCommentsDoc
      else if t = sampleUserText then Some (JObj [(''avatar_url'', JStr ''a.png'')])
      else if t = unprintableText then Some unprintableDoc
      else if t = ''{}'' then Some (JObj [])
      else if t = ''null'' then Some JNull
      else None)"

definition sampleNode :: node where
  "sampleNode =
     \<lparr> nodeNumToString = sampleNts, parseJSON = sampleParse, encodeURIComponent = (\<lambda>t. t),
       base64 = (\<lambda>t. t) \<rparr>"

text \<open>Upstreams: the one of the specification's scenario (the first two URL forms
  answer 404, the third the comments; user 5 has an avatar, any other lookup answers
  404); one that answers every request with \<^verbatim>\<open>{}\<close>; one that answers 404
  throughout; one that is unreachable; one whose comments name a creator that cannot
  be converted to a string.\<close>

definition scenarioFetch :: upstream where
  "scenarioFetch url k =
     (if url = ''https://e621.net/comments.json?search%5Bpost_id%5D=7''
      then Responds 200 (Some ''application/json'') scenarioCommentsText
      else if url = ''https://e621.net/users/5.json''
      then Responds 200 (Some ''application/json'') sampleUserText
      else Responds 404 (Some ''text/html'') ''Not Found'')"


definition emptyObjectFetch :: upstream where
  "emptyObjectFetch url k = Responds 200 (Some ''application/json'') ''{}''"

definition notFoundFetch :: upstream where
  "notFoundFetch url k = Responds 404 (Some ''Text/HTML'') ''Not Found''"

definition downFetch :: upstream where
  "downFetch url k = Throws ''ECONNREFUSED''"

definition unprintableFetch :: upstream where
  "unprintableFetch url k =
     (if isUserUrl url then Responds 200 (Some ''application/json'') sampleUserText
      else Responds 200 (Some ''application/json'') unprintableText)"

text \<open>The posts response of the specification's scenario, as the upstream and as the
  proxy deliver it.\<close>

definition scenarioPosts :: js where
  "scenarioPosts =
     JObj [(''posts'',
            JArr [JObj [(''id'', JNum 1),
                        (''file'', JObj [(''ext'', JStr ''webm''), (''url'', JStr ''a.webm'')])],
                  JObj [(''id'', JNum 2),
                        (''file'', JObj [(''ext'', JStr ''swf''), (''url'', JStr ''b.swf'')])]])]"

definition scenarioUpstream :: "string \<Rightarrow> js awaited" where
  "scenarioUpstream url = Resolved scenarioPosts"

definition scenarioFiltered :: js where
  "scenarioFiltered =
     JObj [(''posts'',
            JArr [JObj [(''id'', JNum 1),
                        (''file'', JObj [(''ext'', JStr ''webm''), (''url'', JStr ''a.webm'')])]])]"

text \<open>A page whose only post has its extension in capitals.\<close>

definition capitalsPosts :: js where
  "capitalsPosts =
     JObj [(''posts'',
            JArr [JObj [(''id'', JNum 3),
                        (''file'', JObj [(''ext'', JStr ''SWF''), (''url'', JStr ''c.SWF'')])]])]"

text \<open>The comment the proxy returns in the scenario of \<open>scenarioFetch\<close>.\<close>

definition scenarioReply :: comment where
  "scenarioReply =
     \<lparr> comment_id = JNum 9, comment_body = JStr ''hi'', creator_id = JNum 5,
       creator_name = JStr ''Unknown'', avatar_url = Plain (JStr ''a.png'') \<rparr>"


text \<open>Twelve comments by the creators 1 to 12, and an upstream in which every user
  has the avatar \<^verbatim>\<open>a.png\<close>.\<close>

definition commentBy :: "nat \<Rightarrow> js" where
  "commentBy k = JObj [(''id'', JNum (of_nat k)), (''creator_id'', JNum (of_nat k))]"


definition avatarFetch :: upstream where
  "avatarFetch url k = Responds 200 (Some ''application/json'') sampleUserText"

text \<open>
  Two comments whose creator ids, the number 5 and the string \<^verbatim>\<open>5\<close>, are different
  ids with one key, and an upstream that answers the first request for a URL and lets
  any later one time out. A comment by the creator \<^verbatim>\<open>constructor\<close> after ten others.
\<close>

definition sharedKeyDoc :: js where
  "sharedKeyDoc =
     JArr [JObj [(''id'', JNum 1), (''creator_id'', JNum 5)],
           JObj [(''id'', JNum 2), (''creator_id'', JStr ''5'')]]"

definition onceFetch :: upstream where
  "onceFetch url k =
     (if k = 0 then Responds 200 (Some ''application/json'') sampleUserText else Throws ''timeout'')"

definition inheritedDoc :: js where
  "inheritedDoc =
     JArr (map commentBy [1, 2, 3, 4, 5, 6, 7, 8, 9, 10] @
           [JObj [(''id'', JNum 11), (''creator_id'', JStr ''constructor'')]])"

section \<open>Properties of the feed controller\<close>

subsection \<open>Exceptions\<close>

lemma bindE_Inr_iff: "bindE m f = Inr y \<longleftrightarrow> (\<exists>x. m = Inr x \<and> f x = Inr y)"
  by (cases m) simp_all

lemma bindE_Inl_iff: "bindE m f = Inl e \<longleftrightarrow> m = Inl e \<or> (\<exists>x. m = Inr x \<and> f x = Inl e)"
  by (cases m) simp_all

lemma sequenceE_map_Inr:
  "sequenceE (map f xs) = Inr ys \<longleftrightarrow> list_all2 (\<lambda>x y. f x = Inr y) xs ys"
proof (induction xs arbitrary: ys)
  case Nil
  then show ?case by auto
next
  case (Cons x xs)
  show ?case
    by (cases ys) (auto simp: bindE_Inr_iff Cons.IH)
qed

subsection \<open>escapeHtml\<close>

lemma replaceAll_append: "replaceAll c r (xs @ ys) = replaceAll c r xs @ replaceAll c r ys"
  by (simp add: replaceAll_def)

lemma replaceAll_concat:
  "replaceAll c r (concat (map f s)) = concat (map (\<lambda>x. replaceAll c r (f x)) s)"
  by (induction s) (simp_all add: replaceAll_append, simp add: replaceAll_def)

lemma escapeChar_steps:
  "replaceAll (CHR 0x27) ''&#039;''
       (replaceAll (CHR 0x22) ''&quot;''
         (replaceAll CHR ''>'' ''&gt;''
           (replaceAll CHR ''<'' ''&lt;''
             (if x = CHR ''&'' then ''&amp;'' else [x])))) = escapeChar x"
  by (simp add: replaceAll_def escapeChar_def)

text \<open>The five sequential replacements amount to one pass that maps each character to
  its entity: no replacement text contains a character replaced later.\<close>

lemma replace_chain:
  "replaceAll (CHR 0x27) ''&#039;''
       (replaceAll (CHR 0x22) ''&quot;''
         (replaceAll CHR ''>'' ''&gt;''
           (replaceAll CHR ''<'' ''&lt;''
             (replaceAll CHR ''&'' ''&amp;'' t)))) = concat (map escapeChar t)"
proof -
  have "replaceAll CHR ''&'' ''&amp;'' t
          = concat (map (\<lambda>x. if x = CHR ''&'' then ''&amp;'' else [x]) t)"
    by (simp add: replaceAll_def)
  then show ?thesis
    by (simp only: replaceAll_concat escapeChar_steps)
qed

lemma escapeHtml_eq:
  "escapeHtml nts v =
     bindE (toString nts (coalesce v (JStr []))) (\<lambda>t. Inr (concat (map escapeChar t)))"
  by (simp add: escapeHtml_def replace_chain)

lemma escapeHtml_string: "escapeHtml nts (JStr str) = Inr (concat (map escapeChar str))"
  by (simp add: escapeHtml_eq coalesce_def)

lemma escapeHtml_Inr:
  "escapeHtml nts v = Inr out \<Longrightarrow>
     out = concat (map escapeChar (printed nts (coalesce v (JStr []))))"
  by (auto simp: escapeHtml_eq bindE_Inr_iff printed_def)

lemma escapeHtml_truthy:
  "truthy v \<Longrightarrow> escapeHtml nts v = Inr out \<Longrightarrow> out = escaped nts v"
  by (cases v) (auto dest!: escapeHtml_Inr simp: escaped_def coalesce_def)

lemma escapeChar_no_special:
  "c \<in> set (escapeChar x) \<Longrightarrow> c \<notin> {CHR ''<'', CHR ''>'', CHR 0x22, CHR 0x27}"
  by (auto simp: escapeChar_def split: if_splits)

lemma escaped_no_special:
  "set (concat (map escapeChar t)) \<inter> {CHR ''<'', CHR ''>'', CHR 0x22, CHR 0x27} = {}"
  using escapeChar_no_special by fastforce

lemma ampsEscaped_escapeChar_append:
  "ampsEscaped rest \<Longrightarrow> ampsEscaped (escapeChar x @ rest)"
  by (simp add: escapeChar_def entities_def)

lemma ampsEscaped_concat_escapeChar: "ampsEscaped (concat (map escapeChar t))"
  by (induction t) (simp_all add: ampsEscaped_escapeChar_append)

lemma filter_isMarkup_escaped: "filter isMarkup (concat (map escapeChar t)) = []"
  using escaped_no_special [of t] by (auto simp: filter_empty_conv isMarkup_def)

lemma filter_isMarkup_take_escaped: "filter isMarkup (take n (concat (map escapeChar t))) = []"
  using escaped_no_special [of t]
  by (auto simp: filter_empty_conv isMarkup_def dest!: in_set_takeD)

text \<open>The markup characters of the filled template are those of the template and of
  the printed numbers: escaped text adds none.\<close>

lemma infoTemplate_markup:
  "filter isMarkup
     (infoTemplate (concat (map escapeChar a)) t u d c
        (if b then Some (take n (concat (map escapeChar e))) else None))
   = filter isMarkup (infoTemplate [] t u d c (if b then Some [] else None))"
  by (simp add: infoTemplate_def filter_isMarkup_escaped filter_isMarkup_take_escaped)

lemma infoTemplate_skeleton:
  assumes "filter isMarkup t = []" "filter isMarkup u = []" "filter isMarkup d = []"
    "filter isMarkup c = []"
  shows "filter isMarkup (infoTemplate [] t u d c descPart)
           = filter isMarkup (infoTemplate [] [] [] [] [] descPart)"
  using assms by (simp add: infoTemplate_def)

text \<open>What \<open>addPost\<close> appends when it returns.\<close>

lemma addPost_Inr:
  assumes "addPost B post s = Inr s'"
  shows "\<exists>mediaEl.
      s' = s\<lparr>cards := cards s @
             [\<lparr> postId = printedId (numToString B) post, media = mediaEl,
                info = infoTemplate (escaped (numToString B) (JStr (artistOf (numToString B) post)))
                         (printed (numToString B) (scoreTotal B post))
                         (printed (numToString B) (scoreUp post))
                         (printed (numToString B) (scoreDown post))
                         (printed (numToString B) (commentCount post))
                         (if truthy (description post)
                          then Some (take 300 (escaped (numToString B) (description post)))
                          else None),
                offsetHeight = cardHeight B post, panel = None,
                outsideTapHandler = None \<rparr>]\<rparr>"
proof -
  let ?nts = "numToString B"
  from assms obtain pid idText ext mediaEl artist total markup where
    a: "getProp post ''id'' = Inr pid" "toString ?nts pid = Inr idText"
      "artistText ?nts post = Inr artist"
      "scoreTotalOf B post (scoreUp post) (scoreDown post) = Inr total"
      "infoHtml ?nts artist total (scoreUp post) (scoreDown post) (commentCount post)
         (if truthy (description post) then description post else JStr []) = Inr markup"
    and s': "s' = s\<lparr>cards := cards s @
                 [\<lparr> postId = idText, media = mediaEl, info = markup,
                    offsetHeight = cardHeight B post, panel = None,
                    outsideTapHandler = None \<rparr>]\<rparr>"
    unfolding addPost_def Let_def bindE_Inr_iff scoreUp_def scoreDown_def commentCount_def
      description_def
    by blast
  from a(5) obtain ea t u d c dp where
    m: "escapeHtml ?nts (JStr artist) = Inr ea" "toString ?nts total = Inr t"
      "toString ?nts (scoreUp post) = Inr u" "toString ?nts (scoreDown post) = Inr d"
      "toString ?nts (commentCount post) = Inr c"
      "(if truthy (if truthy (description post) then description post else JStr [])
        then bindE (escapeHtml ?nts (if truthy (description post) then description post else JStr []))
               (\<lambda>e. Inr (Some (take 300 e)))
        else Inr None) = Inr dp"
      "markup = infoTemplate ea t u d c dp"
    unfolding infoHtml_def bindE_Inr_iff by blast
  have dp: "dp = (if truthy (description post)
                  then Some (take 300 (escaped ?nts (description post))) else None)"
  proof (cases "truthy (description post)")
    case True
    with m(6) obtain e where "escapeHtml ?nts (description post) = Inr e" "dp = Some (take 300 e)"
      by (auto simp: bindE_Inr_iff)
    with True escapeHtml_truthy [OF True this(1)] show ?thesis by simp
  next
    case False
    with m(6) show ?thesis by simp
  qed
  have ea: "ea = escaped ?nts (JStr (artistOf ?nts post))"
    using m(1) a(3) by (simp add: escapeHtml_string escaped_def printed_def artistOf_def)
  have ids: "idText = printedId ?nts post"
    using a(1,2) by (simp add: printedId_def printed_def optChain_def)
  show ?thesis
    unfolding s' m(7) dp ea ids
    using m(2-5) a(4) by (auto simp: printed_def scoreTotal_def)
qed

lemma numberOrMissing_printed:
  assumes "numberOrMissing v" "\<forall>r. filter isMarkup (nts r) = []"
  shows "filter isMarkup (printed nts (coalesce v (JNum 0))) = []"
  using assms by (cases v) (simp_all add: coalesce_def printed_def)

lemma numeric_total:
  assumes "numericPost post" "plainNumbers B"
  shows "filter isMarkup (printed (numToString B) (scoreTotal B post)) = []"
proof -
  from assms(2) have p: "\<forall>r. filter isMarkup (numToString B r) = []"
    and m: "\<And>a b. \<exists>c. jsMinus B (JNum a) (JNum b) = Inr (JNum c)"
    by (simp_all add: plainNumbers_def)
  from assms(1) have n: "numberOrMissing (optChain (optChain post ''score'') ''up'')"
    "numberOrMissing (optChain (optChain post ''score'') ''down'')"
    "numberOrMissing (optChain (optChain post ''score'') ''total'')"
    by (simp_all add: numericPost_def)
  obtain a where a: "scoreUp post = JNum a"
    using n(1) by (cases "optChain (optChain post ''score'') ''up''")
      (simp_all add: scoreUp_def coalesce_def)
  obtain b where b: "scoreDown post = JNum b"
    using n(2) by (cases "optChain (optChain post ''score'') ''down''")
      (simp_all add: scoreDown_def coalesce_def)
  from m [of a b] obtain c where c: "jsMinus B (JNum a) (JNum b) = Inr (JNum c)" ..
  have "\<exists>r. scoreTotal B post = JNum r"
    using n(3) by (cases "optChain (optChain post ''score'') ''total''")
      (simp_all add: scoreTotal_def scoreTotalOf_def a b c)
  with p show ?thesis by (auto simp: printed_def)
qed

text \<open>
  Claim C10. For every input string the output of \<open>escapeHtml\<close> is the string with each
  of the five special characters replaced by its entity; it contains none of the
  characters \<^verbatim>\<open><\<close>, \<^verbatim>\<open>>\<close>, double quote and single quote, and every \<^verbatim>\<open>&\<close> in it
  starts one of the five entities. The same holds of its output for any other value it
  converts. When \<open>addPost\<close> renders a post, the card's info markup is the template with
  the escaped artist text, the printed score and comment count, and the first 300
  characters of the escaped description in its holes; so the characters that open or
  close a tag or an attribute value are those of the template and of the printed
  numbers, whatever the artist tags and the description are, and for a post whose score
  and comment count are numbers they are those of the template alone.
\<close>

theorem escapeHtml_output_inert:
  "escapeHtml nts (JStr str) = Inr (concat (map escapeChar str))
   \<and> set (concat (map escapeChar str)) \<inter> {CHR ''<'', CHR ''>'', CHR 0x22, CHR 0x27} = {}
   \<and> ampsEscaped (concat (map escapeChar str))
   \<and> (escapeHtml nts v = Inr out \<longrightarrow>
        set out \<inter> {CHR ''<'', CHR ''>'', CHR 0x22, CHR 0x27} = {} \<and> ampsEscaped out)
   \<and> (addPost B post s = Inr s' \<longrightarrow>
        butlast (cards s') = cards s
        \<and> info (last (cards s')) =
            infoTemplate (escaped (numToString B) (JStr (artistOf (numToString B) post)))
              (printed (numToString B) (scoreTotal B post))
              (printed (numToString B) (scoreUp post))
              (printed (numToString B) (scoreDown post))
              (printed (numToString B) (commentCount post))
              (if truthy (description post)
               then Some (take 300 (escaped (numToString B) (description post)))
               else None)
        \<and> filter isMarkup (info (last (cards s'))) =
            filter isMarkup
              (infoTemplate []
                 (printed (numToString B) (scoreTotal B post))
                 (printed (numToString B) (scoreUp post))
                 (printed (numToString B) (scoreDown post))
                 (printed (numToString B) (commentCount post))
                 (if truthy (description post) then Some [] else None))
        \<and> (numericPost post \<and> plainNumbers B \<longrightarrow>
              filter isMarkup (info (last (cards s'))) =
                filter isMarkup
                  (infoTemplate [] [] [] [] []
                     (if truthy (description post) then Some [] else None))))"
proof (intro conjI impI)
  show "escapeHtml nts (JStr str) = Inr (concat (map escapeChar str))"
    by (rule escapeHtml_string)
  show "set (concat (map escapeChar str)) \<inter> {CHR ''<'', CHR ''>'', CHR 0x22, CHR 0x27} = {}"
    by (rule escaped_no_special)
  show "ampsEscaped (concat (map escapeChar str))"
    by (rule ampsEscaped_concat_escapeChar)
next
  assume "escapeHtml nts v = Inr out"
  then have o: "out = concat (map escapeChar (printed nts (coalesce v (JStr []))))"
    by (rule escapeHtml_Inr)
  show "set out \<inter> {CHR ''<'', CHR ''>'', CHR 0x22, CHR 0x27} = {}"
    unfolding o by (rule escaped_no_special)
  show "ampsEscaped out"
    unfolding o by (rule ampsEscaped_concat_escapeChar)
next
  assume "addPost B post s = Inr s'"
  from addPost_Inr [OF this] obtain mediaEl where
    s': "s' = s\<lparr>cards := cards s @
             [\<lparr> postId = printedId (numToString B) post, media = mediaEl,
                info = infoTemplate (escaped (numToString B) (JStr (artistOf (numToString B) post)))
                         (printed (numToString B) (scoreTotal B post))
                         (printed (numToString B) (scoreUp post))
                         (printed (numToString B) (scoreDown post))
                         (printed (numToString B) (commentCount post))
                         (if truthy (description post)
                          then Some (take 300 (escaped (numToString B) (description post)))
                          else None),
                offsetHeight = cardHeight B post, panel = None,
                outsideTapHandler = None \<rparr>]\<rparr>"
    by blast
  show "butlast (cards s') = cards s"
    by (simp add: s')
  show i: "info (last (cards s')) =
            infoTemplate (escaped (numToString B) (JStr (artistOf (numToString B) post)))
              (printed (numToString B) (scoreTotal B post))
              (printed (numToString B) (scoreUp post))
              (printed (numToString B) (scoreDown post))
              (printed (numToString B) (commentCount post))
              (if truthy (description post)
               then Some (take 300 (escaped (numToString B) (description post)))
               else None)"
    by (simp add: s')
  show k: "filter isMarkup (info (last (cards s'))) =
            filter isMarkup
              (infoTemplate []
                 (printed (numToString B) (scoreTotal B post))
                 (printed (numToString B) (scoreUp post))
                 (printed (numToString B) (scoreDown post))
                 (printed (numToString B) (commentCount post))
                 (if truthy (description post) then Some [] else None))"
    unfolding i escaped_def by (rule infoTemplate_markup)
  assume h: "numericPost post \<and> plainNumbers B"
  then have p: "\<forall>r. filter isMarkup (numToString B r) = []"
    by (simp add: plainNumbers_def)
  from h have n: "numberOrMissing (optChain (optChain post ''score'') ''up'')"
    "numberOrMissing (optChain (optChain post ''score'') ''down'')"
    "numberOrMissing (optChain post ''comment_count'')"
    by (simp_all add: numericPost_def)
  show "filter isMarkup (info (last (cards s'))) =
                filter isMarkup
                  (infoTemplate [] [] [] [] []
                     (if truthy (description post) then Some [] else None))"
    unfolding k
  proof (rule infoTemplate_skeleton)
    show "filter isMarkup (printed (numToString B) (scoreTotal B post)) = []"
      using h by (simp add: numeric_total)
    show "filter isMarkup (printed (numToString B) (scoreUp post)) = []"
      unfolding scoreUp_def by (rule numberOrMissing_printed [OF n(1) p])
    show "filter isMarkup (printed (numToString B) (scoreDown post)) = []"
      unfolding scoreDown_def by (rule numberOrMissing_printed [OF n(2) p])
    show "filter isMarkup (printed (numToString B) (commentCount post)) = []"
      unfolding commentCount_def by (rule numberOrMissing_printed [OF n(3) p])
  qed
qed

lemma digitChar_plain: "d < 10 \<Longrightarrow> \<not> isMarkup (digitChar d)"
proof -
  assume "d < 10"
  then have "d \<in> {0, 1, 2, 3, 4, 5, 6, 7, 8, 9}" by auto
  then show ?thesis
    by (auto simp: digitChar_def isMarkup_def)
qed

lemma showNat_plain: "filter isMarkup (showNat n) = []"
proof (induction n rule: showNat.induct)
  case (1 n)
  show ?case
  proof (cases "n < 10")
    case True
    then show ?thesis
      by (subst showNat.simps) (simp add: digitChar_plain)
  next
    case False
    with 1 show ?thesis
      by (subst showNat.simps) (simp add: digitChar_plain)
  qed
qed

lemma sampleBrowser_plain: "plainNumbers sampleBrowser"
  by (simp add: plainNumbers_def sampleBrowser_def sampleNts_def showNat_plain isMarkup_def)

lemma showNat_small:
  "showNat 0 = ''0''" "showNat 1 = ''1''" "showNat 2 = ''2''" "showNat 3 = ''3''"
  "showNat 4 = ''4''" "showNat 5 = ''5''" "showNat 6 = ''6''" "showNat 7 = ''7''"
  "showNat 8 = ''8''" "showNat 9 = ''9''" "showNat 10 = ''10''" "showNat 11 = ''11''"
  "showNat (Suc 0) = ''1''"
  by (simp_all add: showNat.simps digitChar_def)

lemma samplePost_renders:
  "addPost sampleBrowser samplePost (initialFeed 100 False) = Inr sampleRendered"
proof -
  have "\<exists>s'. addPost sampleBrowser samplePost (initialFeed 100 False) = Inr s'"
    by (simp add: addPost_def samplePost_def lowerExt_def optChain_def orElse_def artistText_def
        toLowerCase_def lowerChar_def Let_def mediaOf_def joinArr_def coalesce_def
        scoreTotalOf_def infoHtml_def escapeHtml_def sampleBrowser_def)
  then show ?thesis
    unfolding sampleRendered_def by auto
qed

lemma samplePost_values:
  "numericPost samplePost"
  "truthy (description samplePost)"
  "artistOf sampleNts samplePost = ''<b>Tom, Jerry & co''"
  by (simp_all add: numericPost_def samplePost_def optChain_def description_def artistOf_def
      artistText_def orElse_def joinArr_def)

theorem escapeHtml_output_inert_witness:
  "escapeHtml sampleNts (JStr ''Tom & <Jerry>'') = Inr ''Tom &amp; &lt;Jerry&gt;''
   \<and> set ''Tom &amp; &lt;Jerry&gt;'' \<inter> {CHR ''<'', CHR ''>'', CHR 0x22, CHR 0x27} = {}
   \<and> ampsEscaped ''Tom &amp; &lt;Jerry&gt;''
   \<and> addPost sampleBrowser samplePost (initialFeed 100 False) = Inr sampleRendered
   \<and> numericPost samplePost \<and> plainNumbers sampleBrowser
   \<and> artistOf sampleNts samplePost = ''<b>Tom, Jerry & co''
   \<and> filter isMarkup (info (last (cards sampleRendered))) =
       filter isMarkup (infoTemplate [] [] [] [] [] (Some []))"
proof -
  note T = escapeHtml_output_inert
    [of sampleNts "''Tom & <Jerry>''" "JStr ''Tom & <Jerry>''" "''Tom &amp; &lt;Jerry&gt;''"
        sampleBrowser samplePost "initialFeed 100 False" sampleRendered]
  have e: "concat (map escapeChar ''Tom & <Jerry>'') = ''Tom &amp; &lt;Jerry&gt;''"
    by (simp add: escapeChar_def)
  have "escapeHtml sampleNts (JStr ''Tom & <Jerry>'') = Inr ''Tom &amp; &lt;Jerry&gt;''"
    "set ''Tom &amp; &lt;Jerry&gt;'' \<inter> {CHR ''<'', CHR ''>'', CHR 0x22, CHR 0x27} = {}"
    "ampsEscaped ''Tom &amp; &lt;Jerry&gt;''"
    using T unfolding e by blast+
  moreover have t: "truthy (description samplePost) = True"
    using samplePost_values(2) by simp
  moreover have "filter isMarkup (info (last (cards sampleRendered))) =
       filter isMarkup (infoTemplate [] [] [] [] [] (Some []))"
    using T [unfolded t if_True] samplePost_renders samplePost_values(1) sampleBrowser_plain
    by blast
  ultimately show ?thesis
    using samplePost_renders samplePost_values(1,3) sampleBrowser_plain by blast
qed

subsection \<open>The extension test\<close>

lemma lowerChar_swf:
  "lowerChar c = CHR ''s'' \<longleftrightarrow> c = CHR ''s'' \<or> c = CHR ''S''"
  "lowerChar c = CHR ''w'' \<longleftrightarrow> c = CHR ''w'' \<or> c = CHR ''W''"
  "lowerChar c = CHR ''f'' \<longleftrightarrow> c = CHR ''f'' \<or> c = CHR ''F''"
  by (auto simp: lowerChar_def split: if_splits)

lemma toLowerCase_swf: "toLowerCase e = ''swf'' \<longleftrightarrow> e \<in> set swfSpellings"
proof -
  have "toLowerCase e = ''swf'' \<longleftrightarrow>
          (\<exists>a b c. e = [a, b, c] \<and> lowerChar a = CHR ''s'' \<and> lowerChar b = CHR ''w''
                    \<and> lowerChar c = CHR ''f'')"
    by (auto simp: toLowerCase_def map_eq_Cons_conv)
  then show ?thesis
    unfolding lowerChar_swf by (auto simp: swfSpellings_def)
qed

lemma lowerExt_swf_iff: "lowerExt p = Inr ''swf'' \<longleftrightarrow> hasSwfExt p"
proof (cases "optChain (optChain p ''file'') ''ext''")
  case (JStr e)
  show ?thesis
  proof (cases "e = []")
    case True
    with JStr show ?thesis
      by (simp add: lowerExt_def hasSwfExt_def orElse_def toLowerCase_def swfSpellings_def)
  next
    case False
    with JStr show ?thesis
      by (simp add: lowerExt_def hasSwfExt_def orElse_def toLowerCase_swf)
  qed
qed (simp_all add: lowerExt_def hasSwfExt_def orElse_def toLowerCase_def)

lemma lowerExt_Inr_iff: "(\<exists>e. lowerExt p = Inr e) \<longleftrightarrow> extIsText p"
  by (cases "optChain (optChain p ''file'') ''ext''")
    (simp_all add: lowerExt_def extIsText_def orElse_def)

lemma addPosts_filter: "addPosts B ps s = addPosts B (filter (\<lambda>p. \<not> hasSwfExt p) ps) s"
proof (induction ps arbitrary: s)
  case Nil
  then show ?case by simp
next
  case (Cons p ps)
  show ?case
  proof (cases "lowerExt p")
    case (Inl e)
    then have "\<not> hasSwfExt p"
      using lowerExt_swf_iff [of p] by simp
    with Inl show ?thesis by simp
  next
    case (Inr ext)
    then have "hasSwfExt p \<longleftrightarrow> ext = ''swf''"
      using lowerExt_swf_iff [of p] by simp
    with Inr Cons.IH show ?thesis
      by (simp split: sum.splits)
  qed
qed

lemma addPost_postId:
  assumes "addPost B post s = Inr s'"
  shows "map postId (cards s') = map postId (cards s) @ [printedId (numToString B) post]"
  using addPost_Inr [OF assms] by auto

lemma addPosts_ids:
  "addPosts B ps s = (None, s') \<Longrightarrow>
     map postId (cards s') =
       map postId (cards s) @ map (printedId (numToString B)) (filter (\<lambda>p. \<not> hasSwfExt p) ps)"
proof (induction ps arbitrary: s)
  case Nil
  then show ?case by simp
next
  case (Cons p ps)
  from Cons.prems obtain ext where e: "lowerExt p = Inr ext"
    by (cases "lowerExt p") simp_all
  then have sw: "hasSwfExt p \<longleftrightarrow> ext = ''swf''"
    using lowerExt_swf_iff [of p] by simp
  show ?case
  proof (cases "ext = ''swf''")
    case True
    with Cons e sw show ?thesis by simp
  next
    case False
    with Cons.prems e obtain s1 where
      a: "addPost B p s = Inr s1" "addPosts B ps s1 = (None, s')"
      by (cases "addPost B p s") simp_all
    from Cons.IH [OF a(2)] addPost_postId [OF a(1)] False sw show ?thesis
      by simp
  qed
qed

subsection \<open>The two loops of pruneAroundCurrent\<close>

lemma removeBelow_take:
  "n \<le> length cs \<Longrightarrow> removeBelow mx cs n = take (min n (nat (mx + 1))) cs"
proof (induction n)
  case 0
  then show ?case by simp
next
  case (Suc n)
  then have n: "n < length cs" by simp
  show ?case
  proof (cases "int n > mx")
    case True
    then have "min (Suc n) (nat (mx + 1)) = min n (nat (mx + 1))" by linarith
    with Suc True show ?thesis by simp
  next
    case False
    then have "min (Suc n) (nat (mx + 1)) = Suc n" "min n (nat (mx + 1)) = n" by linarith+
    with Suc False n show ?thesis by (simp add: take_Suc_conv_app_nth)
  qed
qed

lemma removeAbove_eq:
  "removeAbove mn cs i (h, ls) =
     (drop (nat (mn - int i)) cs,
      h + sum_list (map offsetHeight (take (nat (mn - int i)) cs)),
      detachAll (take (nat (mn - int i)) cs) ls)"
proof (induction cs arbitrary: i h ls)
  case Nil
  then show ?case by simp
next
  case (Cons c cs)
  show ?case
  proof (cases "int i < mn")
    case True
    then have k: "nat (mn - int i) = Suc (nat (mn - int (Suc i)))" by linarith
    show ?thesis
      using True by (simp add: Cons.IH k del: of_nat_Suc)
  next
    case False
    then have k: "nat (mn - int i) = 0" "nat (mn - int (Suc i)) = 0" by linarith+
    show ?thesis
      using False by (simp add: Cons.IH k del: of_nat_Suc)
  qed
qed

lemma nearestCard_range:
  "fst (nearestCard all mid cs i (best, bd)) = best \<or>
   (i \<le> fst (nearestCard all mid cs i (best, bd)) \<and>
    fst (nearestCard all mid cs i (best, bd)) < i + length cs)"
proof (induction cs arbitrary: i best bd)
  case Nil
  then show ?case by simp
next
  case (Cons c cs)
  let ?d = "\<bar>offsetTop all i + offsetHeight c / 2 - mid\<bar>"
  show ?case
  proof (cases "case bd of None \<Rightarrow> True | Some d \<Rightarrow> ?d < d")
    case True
    with Cons.IH [of "Suc i" i "Some ?d"] show ?thesis
      by (auto simp: Let_def)
  next
    case False
    with Cons.IH [of "Suc i" best bd] show ?thesis
      by (auto simp: Let_def)
  qed
qed

lemma getCurrentIndexInFeed_bound:
  "cards s \<noteq> [] \<Longrightarrow> getCurrentIndexInFeed s < length (cards s)"
  using nearestCard_range [of "cards s" "scrollTop s + clientHeight s / 2" "cards s" 0 0 None]
  by (auto simp: getCurrentIndexInFeed_def getCards_def Let_def)

lemma window_bounds:
  assumes "cards s \<noteq> []"
  shows "0 \<le> windowStart s" "windowStart s \<le> int (getCurrentIndexInFeed s)"
    "int (getCurrentIndexInFeed s) \<le> windowEnd s" "windowEnd s < int (length (cards s))"
    "windowEnd s - windowStart s \<le> int KEEP_BEHIND + int PRELOAD_AHEAD"
  using getCurrentIndexInFeed_bound [OF assms]
  by (auto simp: windowStart_def windowEnd_def getCards_def)

lemma prune_empty: "cards s = [] \<Longrightarrow> pruneAroundCurrent s = s"
  by (simp add: pruneAroundCurrent_def getCards_def)

lemma relayout_sel [simp]:
  "cards (relayout s) = cards s" "listeners (relayout s) = listeners s"
  "clientHeight (relayout s) = clientHeight s"
  "scrollTop (relayout s) = clampScroll (cards s) (clientHeight s) (scrollTop s)"
  by (simp_all add: relayout_def)

lemma setScrollTop_sel [simp]:
  "cards (setScrollTop y s) = cards s" "listeners (setScrollTop y s) = listeners s"
  "clientHeight (setScrollTop y s) = clientHeight s"
  "scrollTop (setScrollTop y s) = clampScroll (cards s) (clientHeight s) y"
  by (simp_all add: setScrollTop_def)

lemma prune_unfold:
  assumes "cards s \<noteq> []"
  shows "pruneAroundCurrent s =
     (let kept = drop (nat (windowStart s)) (take (nat (windowEnd s + 1)) (cards s));
          s' = relayout (s\<lparr>cards := kept, listeners := detachAll (removedAbove s) (listeners s)\<rparr>)
      in if removedAboveHeight s > 0
         then setScrollTop (max 0 (scrollTop s' - removedAboveHeight s)) s'
         else s')"
proof -
  have le: "nat (windowStart s) \<le> nat (windowEnd s + 1)"
    using window_bounds [OF assms] by linarith
  have mm: "min (nat (windowStart s)) (nat (windowEnd s + 1)) = nat (windowStart s)"
    using le by simp
  have m: "min (length (getCards s)) (nat (windowEnd s + 1)) = nat (windowEnd s + 1)"
    using window_bounds [OF assms] unfolding getCards_def by linarith
  have ne: "getCards s \<noteq> []"
    using assms by (simp add: getCards_def)
  have c: "cards s = getCards s"
    by (simp add: getCards_def)
  show ?thesis
    unfolding c using ne
    by (simp add: pruneAroundCurrent_def Let_def removeBelow_take
        removeAbove_eq windowStart_def [symmetric] windowEnd_def [symmetric]
        removedAboveHeight_def removedAbove_def m mm)
qed

lemma detachAll_subset: "set (detachAll cs ls) \<subseteq> set ls"
proof (induction cs arbitrary: ls)
  case Nil
  then show ?case by simp
next
  case (Cons c cs)
  have "set (case outsideTapHandler c of Some f \<Rightarrow> removeEventListener f ls | None \<Rightarrow> ls) \<subseteq> set ls"
    by (auto simp: removeEventListener_def split: option.splits)
  with Cons.IH show ?case by (simp del: detachAll.simps(2) add: detachAll.simps(2) [of c cs ls]) blast
qed

lemma detachAll_removes:
  "c \<in> set cs \<Longrightarrow> outsideTapHandler c = Some f \<Longrightarrow> f \<notin> set (detachAll cs ls)"
proof (induction cs arbitrary: ls)
  case Nil
  then show ?case by simp
next
  case (Cons a cs)
  show ?case
  proof (cases "a = c")
    case True
    with Cons.prems have "detachAll (a # cs) ls = detachAll cs (removeEventListener f ls)"
      by simp
    moreover have "f \<notin> set (removeEventListener f ls)"
      by (simp add: removeEventListener_def)
    ultimately show ?thesis
      using detachAll_subset [of cs "removeEventListener f ls"] by auto
  next
    case False
    with Cons show ?thesis by simp
  qed
qed

lemma prune_cards:
  "cards s \<noteq> [] \<Longrightarrow>
   cards (pruneAroundCurrent s) = drop (nat (windowStart s)) (take (nat (windowEnd s + 1)) (cards s))"
  by (simp add: prune_unfold Let_def)

lemma prune_listeners:
  "cards s \<noteq> [] \<Longrightarrow>
   listeners (pruneAroundCurrent s) = detachAll (removedAbove s) (listeners s)"
  by (simp add: prune_unfold Let_def)

text \<open>The offset after a prune: the offset before, clamped to the content that is
  left, less the height removed above, clamped again.\<close>

lemma prune_scrollTop:
  assumes "cards s \<noteq> []"
  shows "scrollTop (pruneAroundCurrent s) =
     (let y = clampScroll (cards (pruneAroundCurrent s)) (clientHeight s) (scrollTop s)
      in if removedAboveHeight s > 0
         then clampScroll (cards (pruneAroundCurrent s)) (clientHeight s)
                (max 0 (y - removedAboveHeight s))
         else y)"
  using assms by (simp add: prune_unfold Let_def)

text \<open>The handlers of the cards removed above the window are unregistered.\<close>

lemma prune_detaches_above:
  assumes "c \<in> set (removedAbove s)" "outsideTapHandler c = Some f"
  shows "f \<notin> set (listeners (pruneAroundCurrent s))"
proof -
  from assms(1) have "cards s \<noteq> []"
    by (auto simp: removedAbove_def getCards_def)
  then show ?thesis
    using detachAll_removes [OF assms] by (simp add: prune_listeners)
qed

lemma prune_split:
  "cards s = removedAbove s @ cards (pruneAroundCurrent s) @ removedBelow s"
proof (cases "cards s = []")
  case True
  then show ?thesis
    by (simp add: prune_empty removedAbove_def removedBelow_def getCards_def)
next
  case False
  have le: "nat (windowStart s) \<le> nat (windowEnd s + 1)"
    using window_bounds [OF False] by linarith
  have "take (nat (windowEnd s + 1)) (cards s) =
          take (nat (windowStart s)) (cards s) @
          drop (nat (windowStart s)) (take (nat (windowEnd s + 1)) (cards s))"
    using le by (metis append_take_drop_id min.absorb_iff1 take_take)
  then have "cards s =
      (take (nat (windowStart s)) (cards s) @
         drop (nat (windowStart s)) (take (nat (windowEnd s + 1)) (cards s))) @
      drop (nat (windowEnd s + 1)) (cards s)"
    by (metis append_take_drop_id)
  then show ?thesis
    by (simp add: prune_cards [OF False] removedAbove_def removedBelow_def getCards_def)
qed

lemma prune_length:
  "length (cards (pruneAroundCurrent s)) \<le> KEEP_BEHIND + 1 + PRELOAD_AHEAD"
proof (cases "cards s = []")
  case True
  then show ?thesis by (simp add: prune_empty)
next
  case False
  have "length (cards (pruneAroundCurrent s)) \<le> nat (windowEnd s + 1) - nat (windowStart s)"
    by (simp add: prune_cards [OF False])
  also have "\<dots> \<le> KEEP_BEHIND + 1 + PRELOAD_AHEAD"
    using window_bounds [OF False] by linarith
  finally show ?thesis .
qed

text \<open>After every prune the feed holds at most keep-behind + 1 + preload-ahead = 16
  cards, a contiguous run of the cards rendered just before it.\<close>

lemma prune_window:
  "length (cards (pruneAroundCurrent s)) \<le> 10 + 1 + 5
   \<and> cards s = removedAbove s @ cards (pruneAroundCurrent s) @ removedBelow s"
  using prune_length [of s] prune_split [of s]
  by (simp add: KEEP_BEHIND_def PRELOAD_AHEAD_def)

subsection \<open>Rendering the example pages\<close>

lemma sampleNts_of_nat: "sampleNts (of_nat k) = showNat k"
  by (simp add: sampleNts_def)

lemma lowerExt_postWithId: "lowerExt (postWithId k) = Inr []"
  by (simp add: lowerExt_def postWithId_def optChain_def orElse_def toLowerCase_def)

lemma postWithId_props:
  "getProp (postWithId k) ''id'' = Inr (JNum (of_nat k))"
  "optChain (postWithId k) ''file'' = JUndefined"
  "optChain (postWithId k) ''tags'' = JUndefined"
  "optChain (postWithId k) ''score'' = JUndefined"
  "optChain (postWithId k) ''description'' = JUndefined"
  "optChain (postWithId k) ''comment_count'' = JUndefined"
  "optChain JUndefined key = JUndefined"
  by (simp_all add: postWithId_def optChain_def)

lemma artistText_postWithId: "artistText nts (postWithId k) = Inr ''unknown''"
  by (simp add: artistText_def postWithId_props orElse_def)

lemma infoHtml_plain:
  "infoHtml sampleNts ''unknown'' (JNum 0) (JNum 0) (JNum 0) (JNum 0) (JStr [])
     = Inr (infoTemplate ''unknown'' ''0'' ''0'' ''0'' ''0'' None)"
  by (simp add: infoHtml_def escapeHtml_string escapeChar_def sampleNts_def showNat_small)

lemma addPost_postWithId:
  "addPost sampleBrowser (postWithId k) s = Inr (s\<lparr>cards := cards s @ [sampleCard k]\<rparr>)"
  by (simp add: addPost_def lowerExt_postWithId artistText_postWithId postWithId_props
      sampleCard_def sampleBrowser_def sampleNts_of_nat mediaOf_def coalesce_def Let_def
      scoreTotalOf_def infoHtml_plain)

lemma addPosts_postWithId:
  "addPosts sampleBrowser (map postWithId ks) s = (None, s\<lparr>cards := cards s @ map sampleCard ks\<rparr>)"
  by (induction ks arbitrary: s) (simp_all add: lowerExt_postWithId addPost_postWithId)

lemma fetchPosts_resume_pageOf:
  "ks \<noteq> [] \<Longrightarrow>
   fetchPosts_resume sampleBrowser (Resolved (pageOf ks)) s =
     s\<lparr>cards := cards s @ map sampleCard ks, currentPage := currentPage s + 1, loading := False\<rparr>"
  by (simp add: fetchPosts_resume_def pageOf_def optChain_def orElse_def addPosts_postWithId)

lemma sampleCard_sel [simp]:
  "offsetHeight (sampleCard k) = 100" "postId (sampleCard k) = showNat k"
  "outsideTapHandler (sampleCard k) = None"
  by (simp_all add: sampleCard_def)

lemmas scroll_eval =
  onScroll_def ensurePreload_def fetchPosts_start_def getCurrentIndexInFeed_def getCards_def
  offsetTop_def pruneAroundCurrent_def Let_def KEEP_BEHIND_def PRELOAD_AHEAD_def
  POSTS_PER_PAGE_def DEFAULT_TAGS_def sampleState_def relayout_def setScrollTop_def
  clampScroll_def maxScrollTop_def

lemma run1_eq: "run1 = sampleState [0, 1, 2, 3, 4, 5, 6, 7, 8, 9] 0 2 False"
  by (simp add: run1_def fetchPosts_start_def initialFeed_def fetchPosts_resume_pageOf
      sampleState_def)

lemma run2_eq: "run2 = sampleState [0, 1, 2, 3, 4, 5, 6] 100 2 False"
  unfolding run2_def run1_eq by (simp add: scroll_eval)

lemma run3_eq: "run3 = sampleState [0, 1, 2, 3, 4, 5, 6] 200 2 True"
  unfolding run3_def run2_eq by (simp add: scroll_eval)

lemma run4_eq:
  "run4 = sampleState [0, 1, 2, 3, 4, 5, 6, 10, 11, 12, 13, 14, 15, 16, 17, 18, 19] 200 3 False"
  unfolding run4_def run3_eq by (simp add: fetchPosts_resume_pageOf sampleState_def)

lemma run5_eq: "run5 = sampleState [0, 1, 2, 3, 4, 5, 6, 10, 11] 300 3 False"
  unfolding run5_def run4_eq by (simp add: scroll_eval)

text \<open>
  Claim C3 fails on the code. In the example session the first prune, with the user at
  the second card, removes the posts 7, 8 and 9, which were fetched and have not been
  in view; the second page is appended after post 6, and the prune that follows, with
  the user at the fourth card, leaves the cards of the posts 0 to 6, 10 and 11: at most
  16 cards, but not a contiguous run of the twenty posts fetched. No later step
  renders a removed post again: \<open>fetchPosts\<close> only asks for the next page.
\<close>

theorem rendered_not_contiguous_in_fetched:
  "map postId (cards run1) = map showNat [0, 1, 2, 3, 4, 5, 6, 7, 8, 9]
   \<and> run2 = pruneAroundCurrent (setScrollTop 100 run1)
   \<and> map postId (cards run2) = map showNat [0, 1, 2, 3, 4, 5, 6]
   \<and> fst (onScroll (setScrollTop 200 run2))
       = Some \<lparr> reqTags = DEFAULT_TAGS, reqPage = 2, reqLimit = POSTS_PER_PAGE \<rparr>
   \<and> map postId (cards run4) =
       map showNat [0, 1, 2, 3, 4, 5, 6, 10, 11, 12, 13, 14, 15, 16, 17, 18, 19]
   \<and> run5 = pruneAroundCurrent (setScrollTop 300 run4)
   \<and> map postId (cards run5) = map showNat [0, 1, 2, 3, 4, 5, 6, 10, 11]
   \<and> length (cards run5) \<le> 10 + 1 + 5
   \<and> \<not> sublist (map postId (cards run5))
         (map showNat
            ([0, 1, 2, 3, 4, 5, 6, 7, 8, 9] @ [10, 11, 12, 13, 14, 15, 16, 17, 18, 19]))"
proof -
  have a: "run2 = pruneAroundCurrent (setScrollTop 100 run1)"
    unfolding run2_def run1_eq by (simp add: scroll_eval)
  have b: "fst (onScroll (setScrollTop 200 run2))
       = Some \<lparr> reqTags = DEFAULT_TAGS, reqPage = 2, reqLimit = POSTS_PER_PAGE \<rparr>"
    unfolding run2_eq by (simp add: scroll_eval)
  have c: "run5 = pruneAroundCurrent (setScrollTop 300 run4)"
    unfolding run5_def run4_eq by (simp add: scroll_eval)
  have d: "\<not> sublist (map showNat [0, 1, 2, 3, 4, 5, 6, 10, 11])
         (map showNat
            ([0, 1, 2, 3, 4, 5, 6, 7, 8, 9] @ [10, 11, 12, 13, 14, 15, 16, 17, 18, 19]))"
    by (simp add: showNat_small showNat.simps digitChar_def sublist_code)
  have ids: "map postId (cards run1) = map showNat [0, 1, 2, 3, 4, 5, 6, 7, 8, 9]"
    "map postId (cards run2) = map showNat [0, 1, 2, 3, 4, 5, 6]"
    "map postId (cards run4) =
       map showNat [0, 1, 2, 3, 4, 5, 6, 10, 11, 12, 13, 14, 15, 16, 17, 18, 19]"
    "map postId (cards run5) = map showNat [0, 1, 2, 3, 4, 5, 6, 10, 11]"
    "length (cards run5) \<le> 10 + 1 + 5"
    unfolding run1_eq run2_eq run4_eq run5_eq by (simp_all add: sampleState_def)
  from a b c d ids show ?thesis
    by simp
qed

subsection \<open>The scroll offset\<close>

lemma offsetTop_prune:
  assumes ne: "cards s \<noteq> []"
  shows "offsetTop (cards (pruneAroundCurrent s)) (getCurrentIndexInFeed s - nat (windowStart s))
           = offsetTop (cards s) (getCurrentIndexInFeed s) - removedAboveHeight s"
proof -
  let ?i = "getCurrentIndexInFeed s" and ?m = "nat (windowStart s)" and ?e = "nat (windowEnd s + 1)"
  have b: "?m \<le> ?i" "?i \<le> ?e"
    using window_bounds [OF ne] by linarith+
  have "take (?i - ?m) (drop ?m (take ?e (cards s))) = drop ?m (take ?i (take ?e (cards s)))"
    using b by (simp add: take_drop)
  also have "take ?i (take ?e (cards s)) = take ?i (cards s)"
    using b by (simp add: min_def)
  finally have t: "take (?i - ?m) (cards (pruneAroundCurrent s)) = drop ?m (take ?i (cards s))"
    by (simp add: prune_cards [OF ne])
  have "take ?i (cards s) = take ?m (cards s) @ drop ?m (take ?i (cards s))"
    using b by (metis append_take_drop_id min.absorb_iff1 take_take)
  then have "sum_list (map offsetHeight (take ?i (cards s))) =
      sum_list (map offsetHeight (take ?m (cards s))) +
      sum_list (map offsetHeight (drop ?m (take ?i (cards s))))"
    by (metis map_append sum_list.append)
  then show ?thesis
    by (simp add: offsetTop_def t removedAboveHeight_def removedAbove_def getCards_def)
qed

lemma nth_prune:
  assumes ne: "cards s \<noteq> []"
  shows "cards (pruneAroundCurrent s) ! (getCurrentIndexInFeed s - nat (windowStart s))
           = cards s ! getCurrentIndexInFeed s"
proof -
  have "nat (windowStart s) \<le> getCurrentIndexInFeed s"
    "getCurrentIndexInFeed s < nat (windowEnd s + 1)"
    "nat (windowEnd s + 1) \<le> length (cards s)"
    using window_bounds [OF ne] by linarith+
  then show ?thesis
    by (simp add: prune_cards [OF ne])
qed

lemma removedAboveHeight_nonneg:
  assumes "\<forall>c \<in> set (cards s). 0 \<le> offsetHeight c"
  shows "0 \<le> removedAboveHeight s"
proof -
  have "\<forall>c \<in> set (removedAbove s). 0 \<le> offsetHeight c"
    using assms by (auto simp: removedAbove_def getCards_def dest: in_set_takeD)
  then show ?thesis
    unfolding removedAboveHeight_def by (intro sum_list_nonneg) auto
qed

lemma nearestCard_first_min:
  assumes "all = pre @ cs" "i = length pre" "all \<noteq> []"
    and "case bd of None \<Rightarrow> pre = []
         | Some d \<Rightarrow> best < i \<and> d = centerDist all mid best
                     \<and> (\<forall>j<best. d < centerDist all mid j) \<and> (\<forall>j<i. d \<le> centerDist all mid j)"
  shows "\<forall>j < fst (nearestCard all mid cs i (best, bd)).
           centerDist all mid (fst (nearestCard all mid cs i (best, bd))) < centerDist all mid j"
  using assms
proof (induction cs arbitrary: pre i best bd)
  case Nil
  then show ?case by (cases bd) auto
next
  case (Cons c cs)
  let ?dist = "\<bar>offsetTop all i + offsetHeight c / 2 - mid\<bar>"
  have ci: "all ! i = c"
    using Cons.prems(1,2) by simp
  then have dist: "?dist = centerDist all mid i"
    by (simp add: centerDist_def)
  have split: "all = (pre @ [c]) @ cs" "Suc i = length (pre @ [c])"
    using Cons.prems(1,2) by simp_all
  show ?case
  proof (cases "case bd of None \<Rightarrow> True | Some d \<Rightarrow> ?dist < d")
    case True
    have inv: "case Some ?dist of None \<Rightarrow> pre @ [c] = []
         | Some d \<Rightarrow> i < Suc i \<and> d = centerDist all mid i
                     \<and> (\<forall>j<i. d < centerDist all mid j) \<and> (\<forall>j<Suc i. d \<le> centerDist all mid j)"
    proof (cases bd)
      case None
      with Cons.prems(4) have "pre = []" by simp
      with Cons.prems(2) have "i = 0" by simp
      with dist show ?thesis by simp
    next
      case (Some d)
      with True have lt: "?dist < d" by simp
      from Some Cons.prems(4) have "\<forall>j<i. d \<le> centerDist all mid j" by auto
      with lt have "\<forall>j<i. ?dist < centerDist all mid j" by fastforce
      then show ?thesis
        by (auto simp: dist less_Suc_eq intro: less_imp_le)
    qed
    from Cons.IH [OF split Cons.prems(3) inv] True show ?thesis
      by (simp add: Let_def)
  next
    case False
    then obtain d where bd: "bd = Some d" and ge: "d \<le> ?dist"
      by (cases bd) auto
    with Cons.prems(4) have inv: "case bd of None \<Rightarrow> pre @ [c] = []
         | Some d \<Rightarrow> best < Suc i \<and> d = centerDist all mid best
                     \<and> (\<forall>j<best. d < centerDist all mid j) \<and> (\<forall>j<Suc i. d \<le> centerDist all mid j)"
      by (auto simp: less_Suc_eq dist)
    from Cons.IH [OF split Cons.prems(3) inv] False show ?thesis
      by (simp add: Let_def)
  qed
qed

lemma current_first_min:
  assumes "cards s \<noteq> []" "j < getCurrentIndexInFeed s"
  shows "centerDist (cards s) (scrollTop s + clientHeight s / 2) (getCurrentIndexInFeed s)
           < centerDist (cards s) (scrollTop s + clientHeight s / 2) j"
  using nearestCard_first_min [where all = "cards s" and pre = "[]" and cs = "cards s" and i = 0
      and bd = None and best = 0 and mid = "scrollTop s + clientHeight s / 2"]
    assms
  by (simp add: getCurrentIndexInFeed_def getCards_def Let_def)


lemma uniform_sum:
  "list_all (\<lambda>c. offsetHeight c = H) cs \<Longrightarrow> sum_list (map offsetHeight cs) = of_nat (length cs) * H"
  by (induction cs) (simp_all add: algebra_simps)

lemma uniform_offsetTop:
  assumes "list_all (\<lambda>c. offsetHeight c = H) cs" "i \<le> length cs"
  shows "offsetTop cs i = of_nat i * H"
proof -
  have "list_all (\<lambda>c. offsetHeight c = H) (take i cs)"
    using assms(1) by (auto simp: list_all_iff dest: in_set_takeD)
  from uniform_sum [OF this] assms(2) show ?thesis
    by (simp add: offsetTop_def min_def)
qed

lemma abs_closer:
  fixes x t H :: rat
  assumes "\<bar>x - t\<bar> < \<bar>x - H - t\<bar>" "0 < H"
  shows "x - H / 2 < t"
  using assms by (auto simp: abs_if split: if_splits)

lemma uniform_no_clamp:
  assumes "uniformLayout s"
  shows "removedAboveHeight s \<le> scrollTop s"
proof (cases "nat (windowStart s) = 0")
  case True
  with assms show ?thesis
    by (simp add: removedAboveHeight_def removedAbove_def uniformLayout_def)
next
  case False
  let ?H = "clientHeight s" and ?t = "scrollTop s" and ?b = "getCurrentIndexInFeed s"
    and ?m = "nat (windowStart s)"
  from assms have H: "0 < ?H" and all: "list_all (\<lambda>c. offsetHeight c = ?H) (cards s)"
    by (simp_all add: uniformLayout_def)
  have ne: "cards s \<noteq> []"
  proof
    assume "cards s = []"
    then have "getCurrentIndexInFeed s = 0"
      by (simp add: getCurrentIndexInFeed_def getCards_def)
    with False show False by (simp add: windowStart_def)
  qed
  from False have m: "?m + 10 = ?b"
    by (simp add: windowStart_def KEEP_BEHIND_def)
  then have b1: "1 \<le> ?b" by linarith
  have bl: "?b < length (cards s)"
    by (rule getCurrentIndexInFeed_bound [OF ne])
  have hb: "offsetHeight (cards s ! ?b) = ?H" "offsetHeight (cards s ! (?b - Suc 0)) = ?H"
    using all bl by (simp_all add: list_all_length)
  have ob: "offsetTop (cards s) ?b = of_nat ?b * ?H"
    "offsetTop (cards s) (?b - Suc 0) = of_nat ?b * ?H - ?H"
    using bl b1 by (simp_all add: uniform_offsetTop [OF all] of_nat_diff algebra_simps)
  have om: "removedAboveHeight s = of_nat ?m * ?H"
    using bl m by (simp add: removedAboveHeight_def removedAbove_def getCards_def
        uniform_offsetTop [OF all, unfolded offsetTop_def])
  from current_first_min [OF ne, of "?b - Suc 0"] b1
  have "\<bar>of_nat ?b * ?H - ?t\<bar> < \<bar>of_nat ?b * ?H - ?H - ?t\<bar>"
    by (simp add: centerDist_def hb ob)
  from abs_closer [OF this H] have t: "of_nat ?b * ?H - ?H / 2 < ?t" .
  have "of_nat ?m * ?H \<le> (of_nat ?b - 1) * ?H"
  proof (rule mult_right_mono)
    show "(of_nat ?m :: rat) \<le> of_nat ?b - 1"
      using m by (simp add: of_nat_add [symmetric] del: of_nat_add)
    show "0 \<le> ?H" using H by simp
  qed
  then have "of_nat ?m * ?H \<le> of_nat ?b * ?H - ?H"
    by (simp add: algebra_simps)
  with t H om show ?thesis by linarith
qed

lemma clampScroll_id: "0 \<le> y \<Longrightarrow> y \<le> maxScrollTop cs viewport \<Longrightarrow> clampScroll cs viewport y = y"
  by (simp add: clampScroll_def)

text \<open>
  In the layout of the script's header, a prune that leaves enough content below for
  the offset to stay within the scrollable range decrements the offset by exactly the
  height removed, and the card that was current keeps its distance from the top of
  the viewport.
\<close>

lemma uniform_prune_exact:
  assumes "uniformLayout s"
    and room: "scrollTop s \<le> maxScrollTop (cards (pruneAroundCurrent s)) (clientHeight s)"
  shows "scrollTop (pruneAroundCurrent s) = scrollTop s - removedAboveHeight s"
proof (cases "cards s = []")
  case True
  then show ?thesis
    by (simp add: prune_empty removedAboveHeight_def removedAbove_def getCards_def)
next
  case False
  from assms(1) have pos: "0 \<le> scrollTop s" and "\<forall>c \<in> set (cards s). 0 \<le> offsetHeight c"
    by (auto simp: uniformLayout_def list_all_iff)
  from removedAboveHeight_nonneg [OF this(2)] have h0: "0 \<le> removedAboveHeight s" .
  have h1: "removedAboveHeight s \<le> scrollTop s"
    by (rule uniform_no_clamp [OF assms(1)])
  have y: "clampScroll (cards (pruneAroundCurrent s)) (clientHeight s) (scrollTop s) = scrollTop s"
    by (rule clampScroll_id [OF pos room])
  have "clampScroll (cards (pruneAroundCurrent s)) (clientHeight s)
          (max 0 (scrollTop s - removedAboveHeight s)) = scrollTop s - removedAboveHeight s"
    using h0 h1 room by (simp add: clampScroll_def)
  with y h0 show ?thesis
    by (simp add: prune_scrollTop [OF False] Let_def)
qed

lemma uniform_prune_keeps_view:
  assumes "uniformLayout s" "cards s \<noteq> []"
    and room: "scrollTop s \<le> maxScrollTop (cards (pruneAroundCurrent s)) (clientHeight s)"
  shows "cards (pruneAroundCurrent s) ! (getCurrentIndexInFeed s - nat (windowStart s))
           = cards s ! getCurrentIndexInFeed s"
    and "offsetTop (cards (pruneAroundCurrent s)) (getCurrentIndexInFeed s - nat (windowStart s))
           - scrollTop (pruneAroundCurrent s)
         = offsetTop (cards s) (getCurrentIndexInFeed s) - scrollTop s"
  using uniform_prune_exact [OF assms(1) room] offsetTop_prune [OF assms(2)] nth_prune [OF assms(2)]
  by simp_all

text \<open>Twenty cards as tall as the viewport, the user at the twelfth: one card is
  removed above, the offset goes from 1100 to 1000, and the current card stays at the
  top of the viewport.\<close>

lemma prune_exact_mid_feed:
  "uniformLayout midFeed
   \<and> getCurrentIndexInFeed midFeed = 11
   \<and> removedAboveHeight midFeed = 100
   \<and> length (cards (pruneAroundCurrent midFeed)) = 16
   \<and> scrollTop (pruneAroundCurrent midFeed) = 1000
   \<and> offsetTop (cards midFeed) 11 - scrollTop midFeed = 0
   \<and> cards (pruneAroundCurrent midFeed) ! 10 = cards midFeed ! 11
   \<and> offsetTop (cards (pruneAroundCurrent midFeed)) 10 - scrollTop (pruneAroundCurrent midFeed) = 0"
  by code_simp

text \<open>The session, continued to the last card rendered.\<close>

lemma scrollTo_400: "scrollTo 400 run5 = sampleState [0, 1, 2, 3, 4, 5, 6, 10, 11] 400 3 True"
  unfolding scrollTo_def run5_eq by (simp add: scroll_eval)

lemma run6_eq:
  "run6 = sampleState [0, 1, 2, 3, 4, 5, 6, 10, 11, 20, 21, 22, 23, 24, 25, 26, 27, 28, 29] 400 4 False"
  unfolding run6_def scrollTo_400 by (simp add: fetchPosts_resume_pageOf sampleState_def)

lemma scrollTo_500: "scrollTo 500 run6 = sampleState [0, 1, 2, 3, 4, 5, 6, 10, 11, 20, 21] 500 4 False"
  unfolding scrollTo_def run6_eq by (simp add: scroll_eval)

lemma scrollTo_600:
  "scrollTo 600 (scrollTo 500 run6) = sampleState [0, 1, 2, 3, 4, 5, 6, 10, 11, 20, 21] 600 4 True"
  unfolding scrollTo_500 unfolding scrollTo_def by (simp add: scroll_eval)

lemma run7_eq:
  "run7 = sampleState [0, 1, 2, 3, 4, 5, 6, 10, 11, 20, 21, 30, 31, 32, 33, 34, 35, 36, 37, 38, 39]
            600 5 False"
  unfolding run7_def scrollTo_600 by (simp add: fetchPosts_resume_pageOf sampleState_def)

lemma scrollTo_700:
  "scrollTo 700 run7 = sampleState [0, 1, 2, 3, 4, 5, 6, 10, 11, 20, 21, 30, 31] 700 5 False"
  unfolding scrollTo_def run7_eq by (simp add: scroll_eval)

lemma scrollTo_800:
  "scrollTo 800 (sampleState [0, 1, 2, 3, 4, 5, 6, 10, 11, 20, 21, 30, 31] 700 5 False)
     = sampleState [0, 1, 2, 3, 4, 5, 6, 10, 11, 20, 21, 30, 31] 800 5 True"
  unfolding scrollTo_def by (simp add: scroll_eval)

lemma scrollTo_900:
  "scrollTo 900 (sampleState [0, 1, 2, 3, 4, 5, 6, 10, 11, 20, 21, 30, 31] 800 5 True)
     = sampleState [0, 1, 2, 3, 4, 5, 6, 10, 11, 20, 21, 30, 31] 900 5 True"
  unfolding scrollTo_def by (simp add: scroll_eval)

lemma scrollTo_1000:
  "scrollTo 1000 (sampleState [0, 1, 2, 3, 4, 5, 6, 10, 11, 20, 21, 30, 31] 900 5 True)
     = sampleState [0, 1, 2, 3, 4, 5, 6, 10, 11, 20, 21, 30, 31] 1000 5 True"
  unfolding scrollTo_def by (simp add: scroll_eval)

lemma scrollTo_1100:
  "scrollTo 1100 (sampleState [0, 1, 2, 3, 4, 5, 6, 10, 11, 20, 21, 30, 31] 1000 5 True)
     = sampleState [1, 2, 3, 4, 5, 6, 10, 11, 20, 21, 30, 31] 1000 5 True"
  unfolding scrollTo_def by (simp add: scroll_eval)

lemma run8_eq: "run8 = sampleState [1, 2, 3, 4, 5, 6, 10, 11, 20, 21, 30, 31] 1000 5 True"
  unfolding run8_def scrollTo_700 scrollTo_800 scrollTo_900 scrollTo_1000 scrollTo_1100 ..

lemma run9_eq: "run9 = sampleState [1, 2, 3, 4, 5, 6, 10, 11, 20, 21, 30, 31] 1100 5 True"
  unfolding run9_def run8_eq by (simp add: scroll_eval)

lemma prune_run9:
  "pruneAroundCurrent run9 = sampleState [2, 3, 4, 5, 6, 10, 11, 20, 21, 30, 31] 900 5 True"
  unfolding run9_eq by (simp add: scroll_eval)


text \<open>
  Claim C1 fails on the code at the end of the feed. In the session every card is as
  tall as the viewport (100 pixels). The user has come, one card at a time, to the last
  of the twelve cards rendered, offset 1100, while the request for the next page is
  pending. The prune removes the first card (100 pixels). When the script then reads
  \<^verbatim>\<open>feed.scrollTop\<close> the browser has already clamped the offset to the eleven cards
  left, 1000, which shows the same card at the top of the viewport; the script
  subtracts the removed height once more and sets 900. The offset has gone down by 200,
  not by the 100 removed, and the view has jumped to the card before: the card that
  was current is now 100 pixels below the top of the viewport. One step earlier, with
  one card ahead, the same removal was exact (1100 to 1000).
\<close>

theorem prune_jumps_at_last_card:
  "map postId (cards run8) = map showNat [1, 2, 3, 4, 5, 6, 10, 11, 20, 21, 30, 31]
   \<and> scrollTop run8 = 1000
   \<and> getCurrentIndexInFeed run8 = 10
   \<and> loading run8
   \<and> uniformLayout run9
   \<and> scrollTop run9 = 1100
   \<and> getCurrentIndexInFeed run9 = 11
   \<and> onScroll run9 = (None, pruneAroundCurrent run9)
   \<and> windowStart run9 = 1
   \<and> removedAboveHeight run9 = 100
   \<and> map postId (cards (pruneAroundCurrent run9))
       = map showNat [2, 3, 4, 5, 6, 10, 11, 20, 21, 30, 31]
   \<and> maxScrollTop (cards (pruneAroundCurrent run9)) (clientHeight run9) = 1000
   \<and> scrollTop (pruneAroundCurrent run9) = 900
   \<and> scrollTop (pruneAroundCurrent run9) \<noteq> scrollTop run9 - removedAboveHeight run9
   \<and> cards (pruneAroundCurrent run9) ! 10 = cards run9 ! 11
   \<and> offsetTop (cards run9) 11 - scrollTop run9 = 0
   \<and> offsetTop (cards (pruneAroundCurrent run9)) 10 - scrollTop (pruneAroundCurrent run9) = 100
   \<and> getCurrentIndexInFeed (pruneAroundCurrent run9) = 9"
proof -
  have a: "onScroll run9 = (None, pruneAroundCurrent run9)"
    unfolding run9_eq by (simp add: onScroll_def ensurePreload_def fetchPosts_start_def Let_def
        sampleState_def)
  have b: "uniformLayout run9" "getCurrentIndexInFeed run9 = 11" "windowStart run9 = 1"
    "removedAboveHeight run9 = 100" "offsetTop (cards run9) 11 - scrollTop run9 = 0"
    unfolding run9_eq
    by (simp_all add: uniformLayout_def windowStart_def removedAboveHeight_def removedAbove_def
        scroll_eval)
  have c: "getCurrentIndexInFeed run8 = 10"
    unfolding run8_eq by (simp add: scroll_eval)
  have d: "maxScrollTop (cards (pruneAroundCurrent run9)) (clientHeight run9) = 1000"
    "offsetTop (cards (pruneAroundCurrent run9)) 10 - scrollTop (pruneAroundCurrent run9) = 100"
    "getCurrentIndexInFeed (pruneAroundCurrent run9) = 9"
    "cards (pruneAroundCurrent run9) ! 10 = cards run9 ! 11"
    unfolding prune_run9 unfolding run9_eq by (simp_all add: scroll_eval)
  have e: "map postId (cards (pruneAroundCurrent run9))
       = map showNat [2, 3, 4, 5, 6, 10, 11, 20, 21, 30, 31]"
    "scrollTop (pruneAroundCurrent run9) = 900"
    unfolding prune_run9 by (simp_all add: sampleState_def)
  have f: "map postId (cards run8) = map showNat [1, 2, 3, 4, 5, 6, 10, 11, 20, 21, 30, 31]"
    "scrollTop run8 = 1000" "loading run8"
    unfolding run8_eq by (simp_all add: sampleState_def)
  have g: "scrollTop run9 = 1100"
    unfolding run9_eq by (simp add: sampleState_def)
  have h: "scrollTop (pruneAroundCurrent run9) \<noteq> scrollTop run9 - removedAboveHeight run9"
    unfolding e g b by simp
  show ?thesis
    using a b c d e f g h by (intro conjI)
qed

subsection \<open>Listeners of removed cards\<close>

text \<open>
  Claim C9 holds for the cards removed above the window (\<open>prune_detaches_above\<close>) and
  fails for those removed below it, whose removal is a bare \<^verbatim>\<open>remove()\<close>. In the
  mobile session the last card has its comment panel open and its handler 0 registered;
  after the prune the card is gone and handler 0 is still registered on the document.
\<close>

theorem prune_leaks_listener_below:
  "map postId (cards leak2) = map showNat [0, 1, 2, 3, 4, 5, 6]
   \<and> panel (cards leak2 ! 6) = Some True
   \<and> outsideTapHandler (cards leak2 ! 6) = Some 0
   \<and> listeners leak2 = [0]
   \<and> windowEnd (leak2\<lparr>scrollTop := 0\<rparr>) = 5
   \<and> map postId (cards leak3) = map showNat [0, 1, 2, 3, 4, 5]
   \<and> listeners leak3 = [0]"
  by code_simp

section \<open>Properties of the proxy service\<close>

subsection \<open>Credentials\<close>

lemma getProp_optChain: "getProp v k = Inr w \<Longrightarrow> optChain v k = w"
  by (simp add: optChain_def)

lemma getProp_total: "\<not> nullish v \<Longrightarrow> \<exists>w. getProp v k = Inr w"
  by (cases v) simp_all

lemma voteRequest_fields:
  "voteRequest N cfg ident reqBody = Inr rq \<Longrightarrow>
     bodyField rq ''login'' = forwardedLogin cfg reqBody
     \<and> bodyField rq ''api_key'' = forwardedApiKey cfg reqBody"
  by (auto simp: voteRequest_def bodyField_def forwardedLogin_def forwardedApiKey_def
      mergeCredential_def Let_def split: sum.splits)

lemma favoriteRequest_fields:
  "favoriteRequest N cfg reqBody = Inr rq \<Longrightarrow>
     bodyField rq ''login'' = forwardedLogin cfg reqBody
     \<and> bodyField rq ''api_key'' = forwardedApiKey cfg reqBody"
  by (auto simp: favoriteRequest_def bodyField_def forwardedLogin_def forwardedApiKey_def
      mergeCredential_def Let_def split: sum.splits)

lemma unfavoriteRequest_fields:
  assumes "unfavoriteRequest N cfg ident reqBody = Inr rq"
  shows "bodyField rq ''login'' = forwardedLogin cfg reqBody
     \<and> bodyField rq ''api_key'' = forwardedApiKey cfg reqBody"
proof (cases "getProp reqBody ''login''")
  case (Inl e)
  with assms show ?thesis by (simp add: unfavoriteRequest_def)
next
  case (Inr l)
  then have "optChain reqBody ''login'' = l"
    by (rule getProp_optChain)
  with assms Inr show ?thesis
    by (auto simp: unfavoriteRequest_def bodyField_def forwardedLogin_def forwardedApiKey_def
        mergeCredential_def Let_def)
qed

lemma requests_built:
  assumes "\<not> nullish reqBody"
  shows "\<exists>v f u. voteRequest N cfg ident reqBody = Inr v \<and> favoriteRequest N cfg reqBody = Inr f
            \<and> unfavoriteRequest N cfg ident reqBody = Inr u"
proof -
  from getProp_total [OF assms] obtain a b c where
    "getProp reqBody ''score'' = Inr a" "getProp reqBody ''post_id'' = Inr b"
    "getProp reqBody ''login'' = Inr c"
    by blast
  then show ?thesis
    by (simp add: voteRequest_def favoriteRequest_def unfavoriteRequest_def Let_def)
qed

text \<open>
  Claim C7. The vote, favorite and unfavorite endpoints forward, as login and as API key,
  the server's configured value when there is one, whatever the client supplied, and the
  client's value unchanged when there is none; each field is decided on its own. A
  request is built for every body that is an object.
\<close>

theorem credentials_forwarded:
  "(voteRequest N cfg ident reqBody = Inr rq \<or> favoriteRequest N cfg reqBody = Inr rq
      \<or> unfavoriteRequest N cfg ident reqBody = Inr rq
    \<longrightarrow> bodyField rq ''login'' = forwardedLogin cfg reqBody
        \<and> bodyField rq ''api_key'' = forwardedApiKey cfg reqBody)
   \<and> (\<not> nullish reqBody \<longrightarrow>
         (\<exists>v f u. voteRequest N cfg ident reqBody = Inr v \<and> favoriteRequest N cfg reqBody = Inr f
            \<and> unfavoriteRequest N cfg ident reqBody = Inr u))"
  using voteRequest_fields [of N cfg ident reqBody rq] favoriteRequest_fields [of N cfg reqBody rq]
    unfavoriteRequest_fields [of N cfg ident reqBody rq] requests_built [of reqBody N cfg ident]
  by blast

theorem credentials_forwarded_witness:
  "(\<exists>rq. voteRequest sampleNode (loadConfig None None) ''42'' scenarioVoteBody = Inr rq
         \<and> bodyField rq ''login'' = JStr ''x'' \<and> bodyField rq ''api_key'' = JStr ''y'')
   \<and> (\<exists>rq. voteRequest sampleNode (loadConfig (Some ''server'') (Some ''secret'')) ''42''
              scenarioVoteBody = Inr rq
         \<and> bodyField rq ''login'' = JStr ''server'' \<and> bodyField rq ''api_key'' = JStr ''secret'')"
proof -
  obtain rq where
    a: "voteRequest sampleNode (loadConfig None None) ''42'' scenarioVoteBody = Inr rq"
    by (simp add: voteRequest_def scenarioVoteBody_def)
  obtain rq' where
    b: "voteRequest sampleNode (loadConfig (Some ''server'') (Some ''secret'')) ''42''
          scenarioVoteBody = Inr rq'"
    by (simp add: voteRequest_def scenarioVoteBody_def)
  have c: "forwardedLogin (loadConfig None None) scenarioVoteBody = JStr ''x''"
    "forwardedApiKey (loadConfig None None) scenarioVoteBody = JStr ''y''"
    "forwardedLogin (loadConfig (Some ''server'') (Some ''secret'')) scenarioVoteBody = JStr ''server''"
    "forwardedApiKey (loadConfig (Some ''server'') (Some ''secret'')) scenarioVoteBody = JStr ''secret''"
    by (simp_all add: forwardedLogin_def forwardedApiKey_def loadConfig_def envOrNull_def
        scenarioVoteBody_def optChain_def)
  from credentials_forwarded [of sampleNode "loadConfig None None" "''42''" scenarioVoteBody rq] a
    credentials_forwarded [of sampleNode "loadConfig (Some ''server'') (Some ''secret'')" "''42''"
      scenarioVoteBody rq'] b
  show ?thesis
    unfolding c by blast
qed

subsection \<open>Posts\<close>

lemma lowerExt_Inl: "lowerExt p = Inl e \<Longrightarrow> e = TypeError"
  by (cases "orElse (optChain (optChain p ''file'') ''ext'') (JStr [])")
    (simp_all add: lowerExt_def)

lemma filterPosts_eq:
  "filterPosts ps =
     (if list_all extIsText ps then Inr (filter (\<lambda>p. \<not> hasSwfExt p) ps) else Inl TypeError)"
proof (induction ps)
  case Nil
  then show ?case by simp
next
  case (Cons p ps)
  show ?case
  proof (cases "lowerExt p")
    case (Inl e)
    then have "\<not> extIsText p"
      using lowerExt_Inr_iff [of p] by simp
    with Inl lowerExt_Inl [OF Inl] show ?thesis by simp
  next
    case (Inr ext)
    then have "extIsText p" "hasSwfExt p \<longleftrightarrow> ext = ''swf''"
      using lowerExt_Inr_iff [of p] lowerExt_swf_iff [of p] by auto
    with Inr Cons.IH show ?thesis by simp
  qed
qed

lemma map_of_replace:
  "k \<in> fst ` set kvs \<Longrightarrow>
   map_of (map (\<lambda>(a, b). if a = k then (a, v) else (a, b)) kvs) k = Some v"
  by (induction kvs) auto

lemma isArray_posts_obj:
  assumes "isArray (optChain data ''posts'')"
  shows "\<exists>kvs. data = JObj kvs \<and> ''posts'' \<in> fst ` set kvs"
proof (cases data)
  case (JObj kvs)
  with assms have "map_of kvs ''posts'' \<noteq> None"
    by (auto simp: optChain_def split: option.splits)
  then have "''posts'' \<in> fst ` set kvs"
    by (simp add: map_of_eq_None_iff)
  with JObj show ?thesis by simp
qed (use assms in \<open>simp_all add: optChain_def\<close>)

lemma optChain_setProp_posts:
  assumes "isArray (optChain data ''posts'')"
  shows "optChain (setProp data ''posts'' v) ''posts'' = v"
proof -
  from isArray_posts_obj [OF assms] obtain kvs where
    "data = JObj kvs" "''posts'' \<in> fst ` set kvs" by blast
  then show ?thesis
    by (simp add: optChain_def map_of_replace)
qed

text \<open>The response for an upstream document with a posts array.\<close>

lemma postsHandler_array:
  assumes "postsUrl N q p l = Inr url" "fetchJson url = Resolved data" "truthy data"
    "isArray (optChain data ''posts'')"
  shows "postsHandler N fetchJson q p l =
     Inr (if list_all extIsText (elems (optChain data ''posts''))
          then \<lparr> resStatus = 200,
                 resBody = setProp data ''posts''
                   (JArr (filter (\<lambda>p. \<not> hasSwfExt p) (elems (optChain data ''posts'')))) \<rparr>
          else postsFailure)"
  using assms by (simp add: postsHandler_def filterPosts_eq)

lemma postsHandler_filtered:
  assumes "postsHandler N fetchJson q p l = Inr res" "resStatus res = 200"
    and "post \<in> set (elems (optChain (resBody res) ''posts''))"
  shows "\<not> hasSwfExt post"
proof -
  from assms(1) obtain url where url: "postsUrl N q p l = Inr url"
    by (auto simp: postsHandler_def bindE_Inr_iff)
  show ?thesis
  proof (cases "fetchJson url")
    case Rejected
    with assms(1,2) url show ?thesis by (auto simp: postsHandler_def postsFailure_def)
  next
    case (Resolved data)
    show ?thesis
    proof (cases "truthy data \<and> isArray (optChain data ''posts'')")
      case True
      then have arr: "isArray (optChain data ''posts'')" and t: "truthy data" by simp_all
      from postsHandler_array [where fetchJson = fetchJson and url = url, OF url Resolved t arr] assms(1,2) have
        "resBody res = setProp data ''posts''
                   (JArr (filter (\<lambda>p. \<not> hasSwfExt p) (elems (optChain data ''posts''))))"
        by (auto simp: postsFailure_def split: if_splits)
      with assms(3) show ?thesis
        by (simp add: optChain_setProp_posts [OF arr])
    next
      case False
      with Resolved url assms(1) have body: "resBody res = data"
        by (auto simp: postsHandler_def)
      have "\<not> isArray (optChain data ''posts'')"
      proof (cases "truthy data")
        case True
        with False show ?thesis by simp
      next
        case False
        then show ?thesis by (cases data) (simp_all add: optChain_def)
      qed
      then have "elems (optChain data ''posts'') = []"
        by (cases "optChain data ''posts''") simp_all
      with assms(3) body show ?thesis by simp
    qed
  qed
qed

lemma finalTags_suffix: "finalTags nts q = Inr tags \<Longrightarrow> suffix '' -type:swf'' tags"
  by (auto simp: finalTags_def bindE_Inr_iff intro: suffixI)

lemma postsUrl_tags:
  assumes "postsUrl N q p l = Inr url"
  shows "\<exists>tags rest. finalTags (nodeNumToString N) q = Inr tags \<and>
           url = ''https://e621.net/posts.json?tags='' @ encodeURIComponent N tags @ rest"
proof -
  from assms obtain tags page limit where
    "finalTags (nodeNumToString N) q = Inr tags"
    "url = ''https://e621.net/posts.json?tags='' @ encodeURIComponent N tags @
            ''&page='' @ page @ ''&limit='' @ limit"
    unfolding postsUrl_def bindE_Inr_iff by auto
  then show ?thesis by blast
qed

lemma scenario_proxied:
  "postsHandler sampleNode scenarioUpstream JUndefined JUndefined JUndefined
     = Inr \<lparr> resStatus = 200, resBody = scenarioFiltered \<rparr>"
  by (simp add: postsHandler_def postsUrl_def finalTags_def orElse_def scenarioUpstream_def
      scenarioPosts_def scenarioFiltered_def optChain_def lowerExt_def toLowerCase_def
      lowerChar_def)

lemma scenario_rendered:
  "map postId (cards (fetchPosts_resume sampleBrowser (Resolved scenarioPosts)
      (initialFeed 100 False))) = [''1'']"
  "map postId (cards (fetchPosts_resume sampleBrowser (Resolved scenarioFiltered)
      (initialFeed 100 False))) = [''1'']"
  by code_simp+

text \<open>
  Claim C8. The tags the proxy forwards always end in \<^verbatim>\<open> -type:swf\<close> (they are the
  requested tags with that appended), and they are what the upstream URL carries. A
  successful posts response holds no post whose extension is \<^verbatim>\<open>swf\<close> in any
  spelling; for an upstream array of posts whose extensions are strings or missing it
  is a success and holds exactly the other posts, in order. The controller's loop over
  a page does what it would do on the page without its swf posts, and when it
  finishes the cards added are those of the other posts. For the scenario's response
  the proxy delivers post 1 only, and exactly one card, of post 1, is rendered, whether
  the controller is given the upstream's response or the proxy's.
\<close>

theorem swf_excluded:
  "(finalTags (nodeNumToString N) queryTags = Inr tags \<longrightarrow> suffix '' -type:swf'' tags)
   \<and> finalTags (nodeNumToString N) (JStr t) = Inr (t @ '' -type:swf'')
   \<and> finalTags (nodeNumToString N) JUndefined = Inr '' -type:swf''
   \<and> (postsUrl N queryTags queryPage queryLimit = Inr url \<longrightarrow>
        (\<exists>tags rest. finalTags (nodeNumToString N) queryTags = Inr tags \<and>
           url = ''https://e621.net/posts.json?tags='' @ encodeURIComponent N tags @ rest))
   \<and> (postsHandler N fetchJson queryTags queryPage queryLimit = Inr res \<and> resStatus res = 200 \<longrightarrow>
        (\<forall>post \<in> set (elems (optChain (resBody res) ''posts'')). \<not> hasSwfExt post))
   \<and> (postsUrl N queryTags queryPage queryLimit = Inr url \<and> fetchJson url = Resolved data
        \<and> truthy data \<and> isArray (optChain data ''posts'')
        \<and> list_all extIsText (elems (optChain data ''posts'')) \<longrightarrow>
        (\<exists>res. postsHandler N fetchJson queryTags queryPage queryLimit = Inr res
           \<and> resStatus res = 200
           \<and> optChain (resBody res) ''posts''
               = JArr (filter (\<lambda>p. \<not> hasSwfExt p) (elems (optChain data ''posts'')))))
   \<and> addPosts B ps s = addPosts B (filter (\<lambda>p. \<not> hasSwfExt p) ps) s
   \<and> (addPosts B ps s = (None, s') \<longrightarrow>
        map postId (cards s') =
          map postId (cards s) @
          map (printedId (numToString B)) (filter (\<lambda>p. \<not> hasSwfExt p) ps))
   \<and> postsHandler sampleNode scenarioUpstream JUndefined JUndefined JUndefined
       = Inr \<lparr> resStatus = 200, resBody = scenarioFiltered \<rparr>
   \<and> map postId (cards (fetchPosts_resume sampleBrowser (Resolved scenarioPosts)
        (initialFeed 100 False))) = [''1'']
   \<and> map postId (cards (fetchPosts_resume sampleBrowser (Resolved scenarioFiltered)
        (initialFeed 100 False))) = [''1'']"
proof (intro conjI impI)
  show "suffix '' -type:swf'' tags" if "finalTags (nodeNumToString N) queryTags = Inr tags"
    using that by (rule finalTags_suffix)
  show "finalTags (nodeNumToString N) (JStr t) = Inr (t @ '' -type:swf'')"
    by (simp add: finalTags_def orElse_def)
  show "finalTags (nodeNumToString N) JUndefined = Inr '' -type:swf''"
    by (simp add: finalTags_def orElse_def)
  show "\<exists>tags rest. finalTags (nodeNumToString N) queryTags = Inr tags \<and>
           url = ''https://e621.net/posts.json?tags='' @ encodeURIComponent N tags @ rest"
    if "postsUrl N queryTags queryPage queryLimit = Inr url"
    using that by (rule postsUrl_tags)
  show "\<forall>post \<in> set (elems (optChain (resBody res) ''posts'')). \<not> hasSwfExt post"
    if "postsHandler N fetchJson queryTags queryPage queryLimit = Inr res \<and> resStatus res = 200"
    using that postsHandler_filtered [of N fetchJson queryTags queryPage queryLimit res] by blast
  show "\<exists>res. postsHandler N fetchJson queryTags queryPage queryLimit = Inr res
           \<and> resStatus res = 200
           \<and> optChain (resBody res) ''posts''
               = JArr (filter (\<lambda>p. \<not> hasSwfExt p) (elems (optChain data ''posts'')))"
    if h: "postsUrl N queryTags queryPage queryLimit = Inr url \<and> fetchJson url = Resolved data
        \<and> truthy data \<and> isArray (optChain data ''posts'')
        \<and> list_all extIsText (elems (optChain data ''posts''))"
  proof -
    from h have a: "postsUrl N queryTags queryPage queryLimit = Inr url"
      "fetchJson url = Resolved data" "truthy data" "isArray (optChain data ''posts'')"
      "list_all extIsText (elems (optChain data ''posts''))"
      by simp_all
    from postsHandler_array [where fetchJson = fetchJson and url = url, OF a(1-4)] a(5) show ?thesis
      by (simp add: optChain_setProp_posts [OF a(4)])
  qed
  show "addPosts B ps s = addPosts B (filter (\<lambda>p. \<not> hasSwfExt p) ps) s"
    by (rule addPosts_filter)
  show "map postId (cards s') =
          map postId (cards s) @
          map (printedId (numToString B)) (filter (\<lambda>p. \<not> hasSwfExt p) ps)"
    if "addPosts B ps s = (None, s')"
    using that by (rule addPosts_ids)
  show "postsHandler sampleNode scenarioUpstream JUndefined JUndefined JUndefined
       = Inr \<lparr> resStatus = 200, resBody = scenarioFiltered \<rparr>"
    by (rule scenario_proxied)
  show "map postId (cards (fetchPosts_resume sampleBrowser (Resolved scenarioPosts)
        (initialFeed 100 False))) = [''1'']"
    "map postId (cards (fetchPosts_resume sampleBrowser (Resolved scenarioFiltered)
        (initialFeed 100 False))) = [''1'']"
    by (rule scenario_rendered)+
qed

subsection \<open>Comments: normalization and the shape of a body\<close>

lemma normalizeComment_eq:
  "normalizeComment c = (if nullish c then Inl TypeError else Inr (normalized c))"
  by (cases c) (simp_all add: normalizeComment_def normalized_def upstreamName_def
      upstreamBody_def optChain_def)

lemma normalizeAll_eq:
  "normalizeAll cs =
     (if list_all (\<lambda>c. \<not> nullish c) cs then Inr (map normalized cs) else Inl TypeError)"
  by (induction cs) (simp_all add: normalizeComment_eq)

lemma commentsOf_eq:
  "commentsOf payload =
     (if isArray payload then Inr payload
      else if nullish payload then Inl TypeError
      else Inr (orElse (optChain payload ''comments'') (JArr [])))"
  by (cases payload) (simp_all add: commentsOf_def optChain_def)

lemma isArray_orElse_empty:
  "isArray (orElse v (JArr [])) \<longleftrightarrow> \<not> truthy v \<or> isArray v"
  by (simp add: orElse_def)

lemma elems_orElse_empty: "elems (orElse v (JArr [])) = elems v"
  by (cases v) (simp_all add: orElse_def)

lemma creator_id_normalized: "truthy (creator_id (normalized c)) \<longleftrightarrow> creator_id (normalized c) \<noteq> JNull"
  by (auto simp: normalized_def orElse_def)

lemma truthy_creatorIds:
  "filter truthy (map creator_id (normalizedComments payload)) = creatorIds payload"
  by (simp add: creatorIds_def normalizedComments_def filter_map comp_def creator_id_normalized)

subsection \<open>Conversions that throw\<close>

lemma sequenceE_Inl: "sequenceE rs = Inl e \<Longrightarrow> Inl e \<in> set rs"
proof (induction rs)
  case Nil
  then show ?case by simp
next
  case (Cons r rs)
  then show ?case
    by (cases r; cases "sequenceE rs") auto
qed

lemma sequenceE_map_all:
  "\<forall>x \<in> set xs. f x = Inr (g x) \<Longrightarrow> sequenceE (map f xs) = Inr (map g xs)"
  by (induction xs) simp_all

lemma sequenceE_map_Inr_length:
  "sequenceE (map f xs) = Inr ys \<Longrightarrow> length ys = length xs"
  by (auto simp: sequenceE_map_Inr dest: list_all2_lengthD)

lemma toString_Inl: "toString nts v = Inl e \<Longrightarrow> e = TypeError"
proof (induction nts v rule: toString.induct)
  case (6 nts xs)
  then have "sequenceE (map (\<lambda>x. if nullish x then Inr [] else toString nts x) xs) = Inl e"
    by (auto simp: bindE_Inl_iff)
  from sequenceE_Inl [OF this] obtain x where
    "x \<in> set xs" "\<not> nullish x" "toString nts x = Inl e"
    by (auto split: if_splits)
  with 6 show ?case by blast
next
  case (7 nts kvs)
  then show ?case by (simp split: option.splits)
qed simp_all

lemma convertible_iff: "convertible nts v \<longleftrightarrow> (\<exists>t. toString nts v = Inr t)"
  by (simp add: convertible_def split: sum.splits)

lemma not_convertible: "\<not> convertible nts v \<longleftrightarrow> toString nts v = Inl TypeError"
  using toString_Inl [of nts v] by (cases "toString nts v") (auto simp: convertible_def)

lemma convertible_printed: "convertible nts v \<Longrightarrow> toString nts v = Inr (printed nts v)"
  by (auto simp: convertible_iff printed_def)


lemma userUrlText_printed:
  "userUrlText nts k = ''https://e621.net/users/'' @ printed nts k @ ''.json''"
  by (simp add: userUrlText_def printed_def)

lemma userUrl_eq:
  "userUrl nts k = (if convertible nts k then Inr (userUrlText nts k) else Inl TypeError)"
  by (auto simp: userUrl_def userUrlText_printed convertible_printed not_convertible)


lemma isUserUrl_userUrlText: "isUserUrl (userUrlText nts k)"
  by (simp add: isUserUrl_def userUrlText_printed)

subsection \<open>The lookups and the log\<close>

lemma ask_fresh: "url \<notin> set requested \<Longrightarrow> ask fetch requested url = fetch url 0"
  by (simp add: ask_def count_list_0_iff)


lemma lookupAvatar_eq:
  "lookupAvatar N fetch requested k =
     (if convertible (nodeNumToString N) k
      then (lookupResult N fetch requested k, requested @ [userUrlText (nodeNumToString N) k])
      else (JNull, requested))"
  by (simp add: lookupAvatar_def userUrl_eq lookupResult_def)

lemma lookupAll_Cons:
  "snd (lookupAll N fetch (k # ids) requested)
     = snd (lookupAll N fetch ids (snd (lookupAvatar N fetch requested k)))"
  "fst (lookupAll N fetch (k # ids) requested)
     = (k, fst (lookupAvatar N fetch requested k)) #
       fst (lookupAll N fetch ids (snd (lookupAvatar N fetch requested k)))"
  by (simp_all split: prod.splits)

lemma lookupAll_log:
  "snd (lookupAll N fetch ids requested) = requested @ lookupUrls (nodeNumToString N) ids"
proof (induction ids arbitrary: requested)
  case Nil
  then show ?case by (simp add: lookupUrls_def)
next
  case (Cons k ids)
  show ?case
    unfolding lookupAll_Cons Cons.IH by (simp add: lookupAvatar_eq lookupUrls_def)
qed

lemma lookupAll_keys: "map fst (fst (lookupAll N fetch ids requested)) = ids"
proof (induction ids arbitrary: requested)
  case Nil
  then show ?case by simp
next
  case (Cons k ids)
  show ?case
    unfolding lookupAll_Cons by (simp add: Cons.IH)
qed


subsection \<open>The ids looked up\<close>

lemma sameValueZero_eq: "sameValueZero a b \<Longrightarrow> a = b"
  by (simp add: sameValueZero_def)

lemma set_setAdd: "set (setAdd seen x) = insert x (set seen)"
  by (auto simp: setAdd_def dest: sameValueZero_eq)

lemma set_foldl_setAdd: "set (foldl setAdd acc xs) = set acc \<union> set xs"
  by (induction xs arbitrary: acc) (simp_all add: set_setAdd)

lemma set_newSet: "set (newSet xs) = set xs"
  by (simp add: newSet_def set_foldl_setAdd)




lemma avatarIdsOf_subset: "set (avatarIdsOf results) \<subseteq> set (filter truthy (map creator_id results))"
  unfolding avatarIdsOf_def using set_take_subset [of _ "newSet (filter truthy (map creator_id results))"]
  by (simp add: set_newSet)

lemma avatarIdsOf_Nil_iff:
  "avatarIdsOf results = [] \<longleftrightarrow> filter truthy (map creator_id results) = []"
proof -
  have "newSet xs = [] \<longleftrightarrow> xs = []" for xs
    using set_newSet [of xs] by (metis set_empty)
  then show ?thesis
    by (simp add: avatarIdsOf_def AVATAR_LOOKUP_LIMIT_def)
qed


subsection \<open>The enrichment step\<close>

lemma fromEntries_eq:
  "list_all (convertible nts) (map fst entries) \<Longrightarrow>
   fromEntries nts entries = Inr (map (\<lambda>(k, v). (printed nts k, v)) entries)"
  unfolding fromEntries_def
  by (rule sequenceE_map_all) (auto simp: list_all_iff convertible_printed)

lemma sequenceE_map_TypeError:
  assumes "x \<in> set xs" "f x = Inl TypeError" "\<forall>y \<in> set xs. \<forall>e. f y = Inl e \<longrightarrow> e = TypeError"
  shows "sequenceE (map f xs) = Inl TypeError"
  using assms
proof (induction xs)
  case Nil
  then show ?case by simp
next
  case (Cons a xs)
  show ?case
  proof (cases "f a")
    case (Inl e)
    with Cons.prems(3) show ?thesis by simp
  next
    case (Inr b)
    with Cons.prems(1,2) have "x \<in> set xs" by auto
    from Cons.IH [OF this Cons.prems(2)] Cons.prems(3) Inr show ?thesis by simp
  qed
qed

lemma fromEntries_Inl:
  assumes "\<not> list_all (convertible nts) (map fst entries)"
  shows "fromEntries nts entries = Inl TypeError"
proof -
  from assms obtain k v where kv: "(k, v) \<in> set entries" "toString nts k = Inl TypeError"
    by (auto simp: list_all_iff not_convertible)
  show ?thesis
    unfolding fromEntries_def
  proof (rule sequenceE_map_TypeError
      [where f = "\<lambda>(k, v). bindE (toString nts k) (\<lambda>key. Inr (key, v))", OF kv(1)])
    show "(case (k, v) of (k, v) \<Rightarrow> bindE (toString nts k) (\<lambda>key. Inr (key, v))) = Inl TypeError"
      using kv(2) by simp
    show "\<forall>y \<in> set entries. \<forall>e.
            (case y of (k, v) \<Rightarrow> bindE (toString nts k) (\<lambda>key. Inr (key, v))) = Inl e
              \<longrightarrow> e = TypeError"
      by (auto simp: bindE_Inl_iff dest: toString_Inl)
  qed
qed

lemma mergeAvatar_eq:
  "mergeAvatar nts m item =
     (if truthy (creator_id item) \<and> \<not> convertible nts (creator_id item) then Inl TypeError
      else Inr (if truthy (creator_id item)
                   \<and> truthyAvatar (readKey m (printed nts (creator_id item)))
                then item\<lparr>avatar_url := readKey m (printed nts (creator_id item))\<rparr>
                else item))"
  by (cases "toString nts (creator_id item)")
    (auto simp: mergeAvatar_def convertible_def printed_def dest: toString_Inl)

lemma mergeAll_eq:
  "sequenceE (map (mergeAvatar nts m) results) =
     (if list_all (convertible nts) (filter truthy (map creator_id results))
      then Inr (map (\<lambda>item. if truthy (creator_id item)
                                \<and> truthyAvatar (readKey m (printed nts (creator_id item)))
                             then item\<lparr>avatar_url := readKey m (printed nts (creator_id item))\<rparr>
                             else item) results)
      else Inl TypeError)"
proof (cases "list_all (convertible nts) (filter truthy (map creator_id results))")
  case True
  then have "\<forall>item \<in> set results. \<not> (truthy (creator_id item) \<and> \<not> convertible nts (creator_id item))"
    by (auto simp: list_all_iff)
  then show ?thesis
    using True by (intro trans [OF sequenceE_map_all [where g = "\<lambda>item. if truthy (creator_id item)
                                \<and> truthyAvatar (readKey m (printed nts (creator_id item)))
                             then item\<lparr>avatar_url := readKey m (printed nts (creator_id item))\<rparr>
                             else item"]]) (auto simp: mergeAvatar_eq)
next
  case False
  then obtain item where i: "item \<in> set results" "mergeAvatar nts m item = Inl TypeError"
    by (auto simp: list_all_iff mergeAvatar_eq)
  have "sequenceE (map (mergeAvatar nts m) results) = Inl TypeError"
    by (rule sequenceE_map_TypeError [where f = "mergeAvatar nts m", OF i])
      (auto simp: mergeAvatar_eq split: if_splits)
  with False show ?thesis by simp
qed

lemma enrich_log:
  "snd (enrich N fetch results requested)
     = requested @ lookupUrls (nodeNumToString N) (avatarIdsOf results)"
proof (cases "avatarIdsOf results = []")
  case True
  then show ?thesis by (simp add: enrich_def lookupUrls_def)
next
  case False
  obtain avatars lg where l: "lookupAll N fetch (avatarIdsOf results) requested = (avatars, lg)"
    by force
  with lookupAll_log [of N fetch "avatarIdsOf results" requested]
  have "lg = requested @ lookupUrls (nodeNumToString N) (avatarIdsOf results)"
    by simp
  with False l show ?thesis
    by (simp add: enrich_def)
qed

text \<open>The enrichment throws exactly when a non-null creator id cannot be converted.\<close>

lemma enrich_fst:
  "fst (enrich N fetch results requested) =
     (if list_all (convertible (nodeNumToString N)) (filter truthy (map creator_id results))
      then Inr (map (\<lambda>item.
                  if truthy (creator_id item)
                     \<and> truthyAvatar
                         (readKey (map (\<lambda>(k, v). (printed (nodeNumToString N) k, v))
                                     (fst (lookupAll N fetch (avatarIdsOf results) requested)))
                            (printed (nodeNumToString N) (creator_id item)))
                  then item\<lparr>avatar_url :=
                         readKey (map (\<lambda>(k, v). (printed (nodeNumToString N) k, v))
                                    (fst (lookupAll N fetch (avatarIdsOf results) requested)))
                           (printed (nodeNumToString N) (creator_id item))\<rparr>
                  else item) results)
      else Inl TypeError)"
proof (cases "avatarIdsOf results = []")
  case True
  then have none: "filter truthy (map creator_id results) = []"
    by (simp add: avatarIdsOf_Nil_iff)
  then have "\<forall>item \<in> set results. \<not> truthy (creator_id item)"
    by (auto simp: filter_empty_conv)
  then have "map (\<lambda>item.
                  if truthy (creator_id item)
                     \<and> truthyAvatar
                         (readKey (map (\<lambda>(k, v). (printed (nodeNumToString N) k, v))
                                     (fst (lookupAll N fetch (avatarIdsOf results) requested)))
                            (printed (nodeNumToString N) (creator_id item)))
                  then item\<lparr>avatar_url :=
                         readKey (map (\<lambda>(k, v). (printed (nodeNumToString N) k, v))
                                    (fst (lookupAll N fetch (avatarIdsOf results) requested)))
                           (printed (nodeNumToString N) (creator_id item))\<rparr>
                  else item) results = results"
    by (intro map_idI) auto
  with True none show ?thesis
    by (simp add: enrich_def)
next
  case False
  let ?avatars = "fst (lookupAll N fetch (avatarIdsOf results) requested)"
  have e: "fst (enrich N fetch results requested) =
      bindE (fromEntries (nodeNumToString N) ?avatars)
        (\<lambda>avatarMap. sequenceE (map (mergeAvatar (nodeNumToString N) avatarMap) results))"
    using False by (cases "lookupAll N fetch (avatarIdsOf results) requested") (simp add: enrich_def)
  show ?thesis
  proof (cases "list_all (convertible (nodeNumToString N)) (filter truthy (map creator_id results))")
    case True
    then have "list_all (convertible (nodeNumToString N)) (avatarIdsOf results)"
      using avatarIdsOf_subset [of results] by (auto simp: list_all_iff)
    then have "list_all (convertible (nodeNumToString N)) (map fst ?avatars)"
      by (simp add: lookupAll_keys)
    from fromEntries_eq [OF this] True show ?thesis
      unfolding e by (simp add: mergeAll_eq)
  next
    case nc: False
    show ?thesis
    proof (cases "list_all (convertible (nodeNumToString N)) (map fst ?avatars)")
      case True
      from fromEntries_eq [OF this] nc show ?thesis
        unfolding e by (simp add: mergeAll_eq)
    next
      case False
      from fromEntries_Inl [OF this] nc show ?thesis
        unfolding e by simp
    qed
  qed
qed

lemma enrich_fields:
  assumes "fst (enrich N fetch results requested) = Inr rs"
  shows "map creator_name rs = map creator_name results"
    "map comment_body rs = map comment_body results"
    "map creator_id rs = map creator_id results"
    "map comment_id rs = map comment_id results"
    "length rs = length results"
  using assms unfolding enrich_fst by (auto split: if_splits)

subsection \<open>Comments: one attempt\<close>

lemma served_log:
  "snd (served N fetch requested payload)
     = requested @ lookupUrls (nodeNumToString N) (avatarIdsOf (normalizedComments payload))"
  by (simp add: served_def enrich_log)

lemma served_fst:
  "(\<exists>rs. fst (served N fetch requested payload) = Inr rs)
     \<longleftrightarrow> list_all (convertible (nodeNumToString N)) (creatorIds payload)"
  "\<not> list_all (convertible (nodeNumToString N)) (creatorIds payload) \<Longrightarrow>
     fst (served N fetch requested payload) = Inl TypeError"
  unfolding served_def enrich_fst truthy_creatorIds by simp_all

text \<open>An answer with a success status and a body that parses.\<close>

lemma attempt_parsed:
  assumes "ask fetch requested url = Responds st ctype t" "isOk st" "parseJSON N t = Some payload"
  shows "attempt N fetch requested url =
     (if wellFormed payload
      then (case served N fetch (requested @ [url]) payload of
              (Inl e, lg) \<Rightarrow> (Inl (ThrownErr url e), lg)
            | (Inr rs, lg) \<Rightarrow> (Inr rs, lg))
      else (Inl (diagnostic N url (Responds st ctype t)), requested @ [url]))"
proof (cases "isArray payload")
  case True
  then have "shapeOk payload" "\<not> nullish payload"
    by (cases payload; simp add: shapeOk_def)+
  with True assms show ?thesis
    by (simp add: attempt_def diagnostic_def commentsOf_eq normalizeAll_eq commentList_def
        wellFormed_def served_def normalizedComments_def split: prod.splits sum.splits)
next
  case False
  show ?thesis
  proof (cases "nullish payload")
    case True
    then have "\<not> shapeOk payload"
      by (cases payload) (simp_all add: shapeOk_def)
    with True False assms show ?thesis
      by (simp add: attempt_def diagnostic_def commentsOf_eq wellFormed_def)
  next
    case nn: False
    show ?thesis
    proof (cases "shapeOk payload")
      case True
      with False nn have
        "\<not> truthy (optChain payload ''comments'') \<or> isArray (optChain payload ''comments'')"
        by (simp add: shapeOk_def)
      with True False nn assms show ?thesis
        by (simp add: attempt_def diagnostic_def commentsOf_eq normalizeAll_eq commentList_def
            isArray_orElse_empty elems_orElse_empty wellFormed_def served_def
            normalizedComments_def split: prod.splits sum.splits)
    next
      case sh: False
      with False nn assms show ?thesis
        by (simp add: attempt_def diagnostic_def commentsOf_eq shapeOk_def
            isArray_orElse_empty wellFormed_def)
    qed
  qed
qed

lemma attempt_log:
  "snd (attempt N fetch requested url) = requested @ url # lookupsOf N (ask fetch requested url)"
proof (cases "ask fetch requested url")
  case (Throws m)
  then show ?thesis by (simp add: attempt_def lookupsOf_def)
next
  case (Responds st ctype t)
  show ?thesis
  proof (cases "isOk st")
    case False
    with Responds show ?thesis by (simp add: attempt_def lookupsOf_def)
  next
    case True
    show ?thesis
    proof (cases "parseJSON N t")
      case None
      with Responds True show ?thesis by (simp add: attempt_def lookupsOf_def)
    next
      case (Some payload)
      show ?thesis
        unfolding attempt_parsed [OF Responds True Some]
        using served_log [of N fetch "requested @ [url]" payload] Responds True Some
        by (cases "served N fetch (requested @ [url]) payload")
          (auto simp: lookupsOf_def split: sum.splits)
    qed
  qed
qed

lemma attempt_rejected:
  assumes "\<not> accepted N (ask fetch requested url)"
  shows "fst (attempt N fetch requested url) = Inl (diagnostic N url (ask fetch requested url))"
proof (cases "ask fetch requested url")
  case (Throws m)
  then show ?thesis by (simp add: attempt_def diagnostic_def)
next
  case (Responds st ctype t)
  show ?thesis
  proof (cases "isOk st")
    case False
    with Responds show ?thesis by (simp add: attempt_def diagnostic_def)
  next
    case True
    show ?thesis
    proof (cases "parseJSON N t")
      case None
      with Responds True show ?thesis by (simp add: attempt_def diagnostic_def)
    next
      case (Some payload)
      show ?thesis
      proof (cases "wellFormed payload")
        case False
        with Responds show ?thesis
          by (simp add: attempt_parsed [OF Responds True Some])
      next
        case wf: True
        with assms Responds True Some have
          "\<not> list_all (convertible (nodeNumToString N)) (creatorIds payload)"
          by (simp add: accepted_def)
        from served_fst(2) [OF this, of fetch "requested @ [url]"] wf Responds True Some
        show ?thesis
          by (cases "served N fetch (requested @ [url]) payload")
            (simp add: attempt_parsed [OF Responds True Some] diagnostic_def wellFormed_def)
      qed
    qed
  qed
qed

lemma attempt_accepted:
  assumes "accepted N (ask fetch requested url)"
  shows "\<exists>st ctype t payload rs.
           ask fetch requested url = Responds st ctype t \<and> isOk st \<and> parseJSON N t = Some payload
           \<and> wellFormed payload
           \<and> list_all (convertible (nodeNumToString N)) (creatorIds payload)
           \<and> fst (served N fetch (requested @ [url]) payload) = Inr rs
           \<and> fst (attempt N fetch requested url) = Inr rs"
proof -
  from assms obtain st ctype t payload where
    f: "ask fetch requested url = Responds st ctype t" "isOk st" "parseJSON N t = Some payload"
      "wellFormed payload" "list_all (convertible (nodeNumToString N)) (creatorIds payload)"
    by (auto simp: accepted_def split: fetched.splits option.splits)
  from served_fst(1) [of N fetch "requested @ [url]" payload] f(5) obtain rs where
    rs: "fst (served N fetch (requested @ [url]) payload) = Inr rs"
    by blast
  then have "fst (attempt N fetch requested url) = Inr rs"
    using f(4) by (cases "served N fetch (requested @ [url]) payload")
      (simp add: attempt_parsed [OF f(1-3)])
  with f rs show ?thesis by blast
qed

lemma attempt_accepts_iff:
  "(\<exists>rs lg. attempt N fetch requested url = (Inr rs, lg)) \<longleftrightarrow> accepted N (ask fetch requested url)"
proof
  assume "\<exists>rs lg. attempt N fetch requested url = (Inr rs, lg)"
  then obtain rs where "fst (attempt N fetch requested url) = Inr rs" by auto
  then show "accepted N (ask fetch requested url)"
    using attempt_rejected [of N fetch requested url] by auto
next
  assume "accepted N (ask fetch requested url)"
  from attempt_accepted [OF this] obtain rs where "fst (attempt N fetch requested url) = Inr rs"
    by blast
  then show "\<exists>rs lg. attempt N fetch requested url = (Inr rs, lg)"
    by (cases "attempt N fetch requested url") auto
qed

lemma lookupsOf_accepted:
  assumes "accepted N f" "f = Responds st ctype t" "parseJSON N t = Some payload"
  shows "lookupsOf N f =
           map (userUrlText (nodeNumToString N)) (avatarIdsOf (normalizedComments payload))"
proof -
  from assms have w: "isOk st" "wellFormed payload"
    "list_all (convertible (nodeNumToString N)) (creatorIds payload)"
    by (simp_all add: accepted_def)
  have "list_all (convertible (nodeNumToString N)) (avatarIdsOf (normalizedComments payload))"
    using w(3) avatarIdsOf_subset [of "normalizedComments payload"]
    unfolding truthy_creatorIds by (auto simp: list_all_iff)
  then have "filter (convertible (nodeNumToString N)) (avatarIdsOf (normalizedComments payload))
               = avatarIdsOf (normalizedComments payload)"
    by (simp add: list_all_iff)
  with assms(2,3) w show ?thesis
    by (simp add: lookupsOf_def lookupUrls_def)
qed

lemma lookupsOf_user: "u \<in> set (lookupsOf N f) \<Longrightarrow> isUserUrl u"
  by (auto simp: lookupsOf_def lookupUrls_def isUserUrl_userUrlText
      split: fetched.splits option.splits if_splits)

subsection \<open>Comments: the loop\<close>

lemma commentUrls_facts:
  "distinct (commentUrls pid)" "\<forall>u \<in> set (commentUrls pid). \<not> isUserUrl u"
  "length (commentUrls pid) = 3" "last (commentUrls pid) = commentUrls pid ! 2"
  "commentUrls pid \<noteq> []"
  by (simp_all add: commentUrls_def isUserUrl_def)

lemma requestsOf_simps:
  "requestsOf N fetch [] = []"
  "requestsOf N fetch (u # us) = u # lookupsOf N (fetch u 0) @ requestsOf N fetch us"
  "requestsOf N fetch (us @ vs) = requestsOf N fetch us @ requestsOf N fetch vs"
  by (simp_all add: requestsOf_def)

lemma requestsOf_set:
  "v \<in> set (requestsOf N fetch us) \<Longrightarrow> v \<in> set us \<or> isUserUrl v"
  by (auto simp: requestsOf_def dest: lookupsOf_user)

text \<open>The loop over candidates that are asked for the first time: it goes on past
  every rejected one and stops at the first accepted one.\<close>

lemma tryUrls_all_rejected:
  assumes "distinct urls" "set urls \<inter> set requested = {}" "\<forall>u \<in> set urls. \<not> isUserUrl u"
    "\<forall>u \<in> set urls. \<not> accepted N (fetch u 0)"
  shows "tryUrls N fetch urls lastE requested =
     (BadGateway (if urls = [] then lastE
                  else Some (diagnostic N (last urls) (fetch (last urls) 0))),
      requested @ requestsOf N fetch urls)"
  using assms
proof (induction urls arbitrary: lastE requested)
  case Nil
  then show ?case by (simp add: requestsOf_simps)
next
  case (Cons u us)
  from Cons.prems(2) have a: "ask fetch requested u = fetch u 0"
    by (simp add: ask_fresh)
  with Cons.prems(4) have r: "\<not> accepted N (ask fetch requested u)" by simp
  have att: "attempt N fetch requested u =
      (Inl (diagnostic N u (fetch u 0)), requested @ u # lookupsOf N (fetch u 0))"
    using attempt_rejected [OF r] attempt_log [of N fetch requested u] a
    by (cases "attempt N fetch requested u") simp
  have fresh: "set us \<inter> set (requested @ u # lookupsOf N (fetch u 0)) = {}"
    using Cons.prems(1-3) lookupsOf_user [of _ N "fetch u 0"] by auto
  from Cons.prems have rest: "distinct us" "\<forall>v \<in> set us. \<not> isUserUrl v"
    "\<forall>v \<in> set us. \<not> accepted N (fetch v 0)"
    by simp_all
  show ?case
    using Cons.IH [where requested = "requested @ u # lookupsOf N (fetch u 0)"
        and lastE = "Some (diagnostic N u (fetch u 0))", OF rest(1) fresh rest(2,3)]
    by (simp add: att requestsOf_simps)
qed

lemma tryUrls_first_accepted:
  assumes "distinct (pre @ [url])" "set (pre @ [url]) \<inter> set requested = {}"
    "\<forall>u \<in> set (pre @ [url]). \<not> isUserUrl u"
    "\<forall>u \<in> set pre. \<not> accepted N (fetch u 0)" "accepted N (fetch url 0)"
  shows "\<exists>st ctype t payload rs.
           fetch url 0 = Responds st ctype t \<and> isOk st \<and> parseJSON N t = Some payload
           \<and> wellFormed payload
           \<and> fst (served N fetch (requested @ requestsOf N fetch pre @ [url]) payload) = Inr rs
           \<and> tryUrls N fetch (pre @ url # rest) lastE requested =
               (CommentsOk rs,
                requested @ requestsOf N fetch pre @ url #
                  map (userUrlText (nodeNumToString N)) (avatarIdsOf (normalizedComments payload)))"
  using assms(1-4)
proof (induction pre arbitrary: lastE requested)
  case Nil
  then have a: "ask fetch requested url = fetch url 0"
    by (simp add: ask_fresh)
  with assms(5) have acc: "accepted N (ask fetch requested url)" by simp
  from attempt_accepted [OF acc] obtain st ctype t payload rs where
    f: "ask fetch requested url = Responds st ctype t" "isOk st" "parseJSON N t = Some payload"
      "wellFormed payload" "fst (served N fetch (requested @ [url]) payload) = Inr rs"
      "fst (attempt N fetch requested url) = Inr rs"
    by blast
  have lg: "snd (attempt N fetch requested url) =
      requested @ url # map (userUrlText (nodeNumToString N)) (avatarIdsOf (normalizedComments payload))"
    using attempt_log [of N fetch requested url] lookupsOf_accepted [OF acc f(1,3)] by simp
  have "tryUrls N fetch (url # rest) lastE requested =
      (CommentsOk rs,
       requested @ url # map (userUrlText (nodeNumToString N)) (avatarIdsOf (normalizedComments payload)))"
    using f(6) lg by (cases "attempt N fetch requested url") simp
  with f a show ?case
    by (auto simp: requestsOf_simps)
next
  case (Cons u us)
  from Cons.prems(2) have a: "ask fetch requested u = fetch u 0"
    by (simp add: ask_fresh)
  with Cons.prems(4) have r: "\<not> accepted N (ask fetch requested u)" by simp
  have att: "attempt N fetch requested u =
      (Inl (diagnostic N u (fetch u 0)), requested @ u # lookupsOf N (fetch u 0))"
    using attempt_rejected [OF r] attempt_log [of N fetch requested u] a
    by (cases "attempt N fetch requested u") simp
  have fresh: "set (us @ [url]) \<inter> set (requested @ u # lookupsOf N (fetch u 0)) = {}"
    using Cons.prems(1-3) lookupsOf_user [of _ N "fetch u 0"] by auto
  from Cons.prems have rest: "distinct (us @ [url])" "\<forall>v \<in> set (us @ [url]). \<not> isUserUrl v"
    "\<forall>v \<in> set us. \<not> accepted N (fetch v 0)"
    by simp_all
  from Cons.IH [where requested = "requested @ u # lookupsOf N (fetch u 0)"
      and lastE = "Some (diagnostic N u (fetch u 0))", OF rest(1) fresh rest(2,3)]
  show ?case
    by (simp add: att requestsOf_simps)
qed

text \<open>The handler: what it answers when a candidate is accepted, and when none is.\<close>

lemma handler_accepted:
  assumes "commentUrls pid = pre @ u # rest" "\<forall>v \<in> set pre. \<not> accepted N (fetch v 0)"
    "accepted N (fetch u 0)"
  shows "\<exists>st ctype t payload rs.
           fetch u 0 = Responds st ctype t \<and> isOk st \<and> parseJSON N t = Some payload
           \<and> wellFormed payload
           \<and> fst (served N fetch (requestsOf N fetch pre @ [u]) payload) = Inr rs
           \<and> commentsHandler N fetch pid =
               (CommentsOk rs,
                requestsOf N fetch pre @ u #
                  map (userUrlText (nodeNumToString N)) (avatarIdsOf (normalizedComments payload)))"
proof -
  have d: "distinct (pre @ [u])" "\<forall>v \<in> set (pre @ [u]). \<not> isUserUrl v"
    using commentUrls_facts(1,2) [of pid] unfolding assms(1) by auto
  have e: "set (pre @ [u]) \<inter> set ([] :: string list) = {}" by simp
  from tryUrls_first_accepted [where fetch = fetch and N = N and pre = pre and url = u
      and requested = "[]" and rest = rest and lastE = None, OF d(1) e d(2) assms(2,3)]
  show ?thesis
    by (simp add: commentsHandler_def assms(1))
qed

lemma handler_rejected:
  assumes "\<forall>v \<in> set (commentUrls pid). \<not> accepted N (fetch v 0)"
  shows "commentsHandler N fetch pid =
     (BadGateway (Some (diagnostic N (commentUrls pid ! 2) (fetch (commentUrls pid ! 2) 0))),
      requestsOf N fetch (commentUrls pid))"
proof -
  have e: "set (commentUrls pid) \<inter> set ([] :: string list) = {}" by simp
  from tryUrls_all_rejected [where fetch = fetch and N = N and urls = "commentUrls pid"
      and requested = "[]" and lastE = None,
      OF commentUrls_facts(1) e commentUrls_facts(2) assms]
    commentUrls_facts(4,5) [of pid]
  show ?thesis
    by (simp add: commentsHandler_def)
qed

lemma handler_ok_split:
  assumes "commentsHandler N fetch pid = (CommentsOk rs, lg)"
  shows "\<exists>pre u rest. commentUrls pid = pre @ u # rest
           \<and> (\<forall>v \<in> set pre. \<not> accepted N (fetch v 0)) \<and> accepted N (fetch u 0)"
proof -
  have "\<exists>u \<in> set (commentUrls pid). accepted N (fetch u 0)"
  proof (rule ccontr)
    assume "\<not> (\<exists>u \<in> set (commentUrls pid). accepted N (fetch u 0))"
    then have "\<forall>u \<in> set (commentUrls pid). \<not> accepted N (fetch u 0)" by simp
    from handler_rejected [where fetch = fetch, OF this] assms show False by simp
  qed
  from split_list_first_prop [OF this] show ?thesis by blast
qed

lemma handler_ok_iff:
  "(\<exists>rs lg. commentsHandler N fetch pid = (CommentsOk rs, lg))
     \<longleftrightarrow> (\<exists>u \<in> set (commentUrls pid). accepted N (fetch u 0))"
proof
  assume "\<exists>rs lg. commentsHandler N fetch pid = (CommentsOk rs, lg)"
  then obtain rs lg where "commentsHandler N fetch pid = (CommentsOk rs, lg)" by blast
  from handler_ok_split [OF this] show "\<exists>u \<in> set (commentUrls pid). accepted N (fetch u 0)"
    by auto
next
  assume "\<exists>u \<in> set (commentUrls pid). accepted N (fetch u 0)"
  from split_list_first_prop [OF this] obtain pre u rest where
    "commentUrls pid = pre @ u # rest" "accepted N (fetch u 0)"
    "\<forall>v \<in> set pre. \<not> accepted N (fetch v 0)"
    by blast
  from handler_accepted [where fetch = fetch, OF this(1,3,2)]
  show "\<exists>rs lg. commentsHandler N fetch pid = (CommentsOk rs, lg)"
    by blast
qed

lemma served_fields:
  assumes "fst (served N fetch requested payload) = Inr rs"
  shows "map creator_name rs = map upstreamName (take 50 (commentList payload))"
    "map comment_body rs = map upstreamBody (take 50 (commentList payload))"
    "length rs \<le> 50"
  using enrich_fields [OF assms [unfolded served_def]]
  by (simp_all add: normalizedComments_def normalized_def comp_def)

lemma upstreamName_truthy: "truthy (upstreamName c)"
  by (simp add: upstreamName_def orElse_def)

subsection \<open>Comments: the fallback chain\<close>

text \<open>
  Claim C2, as amended. A candidate is used exactly when it is accepted: its request
  does not throw, its status is a success, its body parses, the parsed body is an array
  or a non-null value whose \<open>comments\<close> member is falsy or an array, none of the first
  50 comments is \<^verbatim>\<open>null\<close>, and each non-null creator id among them can be converted
  to a string. The handler answers with what the first accepted candidate leads to,
  having requested the candidates up to it (with the avatar lookups of any that got as
  far as the enrichment) and then only the avatar lookups of the accepted one, and none
  of the candidates after it; when no candidate is accepted it has requested all three
  and answers 502.
\<close>

theorem comments_fallback_chain:
  "((\<exists>rs lg. attempt N fetch requested url = (Inr rs, lg))
      \<longleftrightarrow> accepted N (ask fetch requested url))
   \<and> (commentUrls pid = pre @ u # rest \<and> (\<forall>v \<in> set pre. \<not> accepted N (fetch v 0))
        \<and> accepted N (fetch u 0) \<longrightarrow>
        (\<exists>st ctype t payload rs.
            fetch u 0 = Responds st ctype t \<and> isOk st \<and> parseJSON N t = Some payload \<and>
            fst (served N fetch (requestsOf N fetch pre @ [u]) payload) = Inr rs \<and>
            commentsHandler N fetch pid =
              (CommentsOk rs,
               requestsOf N fetch pre @ u #
                 map (userUrlText (nodeNumToString N)) (avatarIdsOf (normalizedComments payload))))
        \<and> set rest \<inter> set (snd (commentsHandler N fetch pid)) = {})
   \<and> ((\<forall>v \<in> set (commentUrls pid). \<not> accepted N (fetch v 0)) \<longrightarrow>
        (\<exists>e. commentsHandler N fetch pid = (BadGateway e, requestsOf N fetch (commentUrls pid))))"
proof (intro conjI impI)
  show "(\<exists>rs lg. attempt N fetch requested url = (Inr rs, lg))
      \<longleftrightarrow> accepted N (ask fetch requested url)"
    by (rule attempt_accepts_iff)
next
  assume a: "commentUrls pid = pre @ u # rest \<and> (\<forall>v \<in> set pre. \<not> accepted N (fetch v 0))
        \<and> accepted N (fetch u 0)"
  then have b: "commentUrls pid = pre @ u # rest" "\<forall>v \<in> set pre. \<not> accepted N (fetch v 0)"
    "accepted N (fetch u 0)"
    by simp_all
  from handler_accepted [where fetch = fetch, OF b] obtain st ctype t payload rs where
    h: "fetch u 0 = Responds st ctype t" "isOk st" "parseJSON N t = Some payload"
      "fst (served N fetch (requestsOf N fetch pre @ [u]) payload) = Inr rs"
      "commentsHandler N fetch pid =
         (CommentsOk rs,
          requestsOf N fetch pre @ u #
            map (userUrlText (nodeNumToString N)) (avatarIdsOf (normalizedComments payload)))"
    by blast
  then show "\<exists>st ctype t payload rs.
            fetch u 0 = Responds st ctype t \<and> isOk st \<and> parseJSON N t = Some payload \<and>
            fst (served N fetch (requestsOf N fetch pre @ [u]) payload) = Inr rs \<and>
            commentsHandler N fetch pid =
              (CommentsOk rs,
               requestsOf N fetch pre @ u #
                 map (userUrlText (nodeNumToString N)) (avatarIdsOf (normalizedComments payload)))"
    by blast
  have d: "distinct (pre @ u # rest)" "\<forall>v \<in> set rest. \<not> isUserUrl v"
    using commentUrls_facts(1,2) [of pid] unfolding b(1) by auto
  have "v \<notin> set (requestsOf N fetch pre @ u #
            map (userUrlText (nodeNumToString N)) (avatarIdsOf (normalizedComments payload)))"
    if "v \<in> set rest" for v
    using that d requestsOf_set [of v N fetch pre] isUserUrl_userUrlText [of "nodeNumToString N"]
    by auto
  then show "set rest \<inter> set (snd (commentsHandler N fetch pid)) = {}"
    unfolding h(5) by auto
next
  assume "\<forall>v \<in> set (commentUrls pid). \<not> accepted N (fetch v 0)"
  from handler_rejected [where fetch = fetch, OF this]
  show "\<exists>e. commentsHandler N fetch pid = (BadGateway e, requestsOf N fetch (commentUrls pid))"
    by blast
qed

lemma scenario_served:
  "commentsHandler sampleNode scenarioFetch ''7'' =
     (CommentsOk [scenarioReply], commentUrls ''7'' @ [''https://e621.net/users/5.json''])"
  by code_simp

lemma scenario_candidates:
  "commentUrls ''7'' = take 2 (commentUrls ''7'') @ commentUrls ''7'' ! 2 # []"
  "\<not> accepted sampleNode (scenarioFetch (commentUrls ''7'' ! 0) 0)"
  "\<not> accepted sampleNode (scenarioFetch (commentUrls ''7'' ! 1) 0)"
  "accepted sampleNode (scenarioFetch (commentUrls ''7'' ! 2) 0)"
  "requestsOf sampleNode scenarioFetch (take 2 (commentUrls ''7'')) = take 2 (commentUrls ''7'')"
  by code_simp+

lemma unprintable_served:
  "commentsHandler sampleNode unprintableFetch ''7'' =
     (BadGateway (Some (ThrownErr (commentUrls ''7'' ! 2) TypeError)),
      [commentUrls ''7'' ! 0, ''https://e621.net/users/5.json'',
       commentUrls ''7'' ! 1, ''https://e621.net/users/5.json'',
       commentUrls ''7'' ! 2, ''https://e621.net/users/5.json''])"
  by code_simp

lemma unprintable_candidates:
  "\<forall>v \<in> set (commentUrls ''7''). \<not> accepted sampleNode (unprintableFetch v 0)"
  "parseJSON sampleNode unprintableText = Some unprintableDoc"
  "creatorIds unprintableDoc = [JObj [(''toString'', JNum 1)], JNum 5]"
  "\<not> convertible sampleNts (JObj [(''toString'', JNum 1)])"
  by code_simp+

theorem comments_fallback_chain_witness:
  "\<not> accepted sampleNode (scenarioFetch (commentUrls ''7'' ! 0) 0)
   \<and> \<not> accepted sampleNode (scenarioFetch (commentUrls ''7'' ! 1) 0)
   \<and> accepted sampleNode (scenarioFetch (commentUrls ''7'' ! 2) 0)
   \<and> (\<exists>rs lg. attempt sampleNode scenarioFetch (take 2 (commentUrls ''7'')) (commentUrls ''7'' ! 2)
         = (Inr rs, lg))
   \<and> commentsHandler sampleNode scenarioFetch ''7'' =
       (CommentsOk [scenarioReply], commentUrls ''7'' @ [''https://e621.net/users/5.json''])
   \<and> \<not> convertible sampleNts (JObj [(''toString'', JNum 1)])
   \<and> (\<exists>e. commentsHandler sampleNode unprintableFetch ''7''
         = (BadGateway e, requestsOf sampleNode unprintableFetch (commentUrls ''7'')))
   \<and> commentsHandler sampleNode unprintableFetch ''7'' =
       (BadGateway (Some (ThrownErr (commentUrls ''7'' ! 2) TypeError)),
        [commentUrls ''7'' ! 0, ''https://e621.net/users/5.json'',
         commentUrls ''7'' ! 1, ''https://e621.net/users/5.json'',
         commentUrls ''7'' ! 2, ''https://e621.net/users/5.json''])"
proof -
  have pre: "\<forall>v \<in> set (take 2 (commentUrls ''7'')). \<not> accepted sampleNode (scenarioFetch v 0)"
    by code_simp
  have ask: "ask scenarioFetch (take 2 (commentUrls ''7'')) (commentUrls ''7'' ! 2)
      = scenarioFetch (commentUrls ''7'' ! 2) 0"
    by code_simp
  note T = comments_fallback_chain [of sampleNode scenarioFetch "take 2 (commentUrls ''7'')"
      "commentUrls ''7'' ! 2" "''7''" "take 2 (commentUrls ''7'')" "commentUrls ''7'' ! 2" "[]"]
  note U = comments_fallback_chain [of sampleNode unprintableFetch "[]"
      "commentUrls ''7'' ! 2" "''7''" "[]" "commentUrls ''7'' ! 2" "[]"]
  have a: "\<exists>rs lg. attempt sampleNode scenarioFetch (take 2 (commentUrls ''7'')) (commentUrls ''7'' ! 2)
         = (Inr rs, lg)"
    using T scenario_candidates(4) unfolding ask by blast
  have b: "\<exists>e. commentsHandler sampleNode unprintableFetch ''7''
         = (BadGateway e, requestsOf sampleNode unprintableFetch (commentUrls ''7''))"
    using U unprintable_candidates(1) by blast
  from a b scenario_candidates(2-4) scenario_served unprintable_served unprintable_candidates(4)
  show ?thesis
    by blast
qed

text \<open>
  Claim C2, as stated, fails: a body that is neither an array nor an object with a
  \<open>comments\<close> array is not always rejected. The first candidate answers 200 with
  \<^verbatim>\<open>{}\<close>; the handler returns the empty list and requests nothing else.
\<close>

theorem empty_object_served:
  "parseJSON sampleNode ''{}'' = Some (JObj [])
   \<and> \<not> isArray (JObj [])
   \<and> \<not> isArray (optChain (JObj []) ''comments'')
   \<and> emptyObjectFetch (commentUrls ''7'' ! 0) 0 = Responds 200 (Some ''application/json'') ''{}''
   \<and> commentsHandler sampleNode emptyObjectFetch ''7'' = (CommentsOk [], [commentUrls ''7'' ! 0])"
  by code_simp

subsection \<open>Comments: normalization\<close>

text \<open>
  Claim C4. A successful comments response has at most 50 entries; they are, in order,
  the first 50 comments of an accepted candidate's body, each with \<open>creator_name\<close> the
  upstream \<open>creator_name\<close>, else \<open>author\<close>, else \<^verbatim>\<open>Unknown\<close> (so never empty), and
  \<open>body\<close> the upstream \<open>body\<close>, else \<open>body_html\<close>, else the empty string.
\<close>

theorem comments_normalized:
  "commentsHandler N fetch pid = (CommentsOk rs, lg) \<longrightarrow>
     length rs \<le> 50
     \<and> (\<exists>url st ctype t payload.
           url \<in> set (commentUrls pid) \<and> fetch url 0 = Responds st ctype t \<and> isOk st \<and>
           parseJSON N t = Some payload \<and>
           map creator_name rs = map upstreamName (take 50 (commentList payload)) \<and>
           map comment_body rs = map upstreamBody (take 50 (commentList payload)))
     \<and> (\<forall>r \<in> set rs. truthy (creator_name r) \<and> creator_name r \<noteq> JStr [])"
proof
  assume h: "commentsHandler N fetch pid = (CommentsOk rs, lg)"
  from handler_ok_split [OF this] obtain pre u rest where
    s: "commentUrls pid = pre @ u # rest" "\<forall>v \<in> set pre. \<not> accepted N (fetch v 0)"
      "accepted N (fetch u 0)"
    by blast
  from handler_accepted [where fetch = fetch, OF s] obtain st ctype t payload rs' where
    p: "fetch u 0 = Responds st ctype t" "isOk st" "parseJSON N t = Some payload"
      "fst (served N fetch (requestsOf N fetch pre @ [u]) payload) = Inr rs'"
      "commentsHandler N fetch pid =
         (CommentsOk rs',
          requestsOf N fetch pre @ u #
            map (userUrlText (nodeNumToString N)) (avatarIdsOf (normalizedComments payload)))"
    by blast
  with h have rs: "fst (served N fetch (requestsOf N fetch pre @ [u]) payload) = Inr rs"
    by simp
  have u: "u \<in> set (commentUrls pid)"
    using s(1) by simp
  note names = served_fields [OF rs]
  have "\<forall>r \<in> set rs. truthy (creator_name r) \<and> creator_name r \<noteq> JStr []"
  proof
    fix r assume "r \<in> set rs"
    then have "creator_name r \<in> set (map upstreamName (take 50 (commentList payload)))"
      using names(1) by (metis imageI set_map)
    then have "truthy (creator_name r)"
      using upstreamName_truthy by auto
    then show "truthy (creator_name r) \<and> creator_name r \<noteq> JStr []"
      by auto
  qed
  with names u p(1-3) show "length rs \<le> 50
     \<and> (\<exists>url st ctype t payload.
           url \<in> set (commentUrls pid) \<and> fetch url 0 = Responds st ctype t \<and> isOk st \<and>
           parseJSON N t = Some payload \<and>
           map creator_name rs = map upstreamName (take 50 (commentList payload)) \<and>
           map comment_body rs = map upstreamBody (take 50 (commentList payload)))
     \<and> (\<forall>r \<in> set rs. truthy (creator_name r) \<and> creator_name r \<noteq> JStr [])"
    by blast
qed

theorem comments_normalized_witness:
  "commentsHandler sampleNode scenarioFetch ''7'' =
       (CommentsOk [scenarioReply], commentUrls ''7'' @ [''https://e621.net/users/5.json''])
   \<and> length [scenarioReply] \<le> 50
   \<and> (\<exists>url st ctype t payload.
           url \<in> set (commentUrls ''7'') \<and> scenarioFetch url 0 = Responds st ctype t \<and> isOk st \<and>
           parseJSON sampleNode t = Some payload \<and>
           map creator_name [scenarioReply] = map upstreamName (take 50 (commentList payload)) \<and>
           map comment_body [scenarioReply] = map upstreamBody (take 50 (commentList payload)))
   \<and> creator_name scenarioReply = JStr ''Unknown''
   \<and> comment_body scenarioReply = JStr ''hi''"
proof -
  note T = comments_normalized [of sampleNode scenarioFetch "''7''" "[scenarioReply]"
      "commentUrls ''7'' @ [''https://e621.net/users/5.json'']"]
  have "creator_name scenarioReply = JStr ''Unknown''" "comment_body scenarioReply = JStr ''hi''"
    by (simp_all add: scenarioReply_def)
  with T scenario_served show ?thesis
    by blast
qed

subsection \<open>Comments: total failure\<close>

text \<open>
  Claim C6, as amended. The handler answers 502 exactly when all three candidates are
  rejected; it has then requested all three, in order (and, after a candidate that got
  as far as the enrichment, its avatar lookups), and the body's \<open>debug\<close> describes the
  last one: its URL with either the status, the lower-cased content type and the first
  250 characters of the body (rejected for its status, its syntax or its shape), or the
  error (the request threw, or the body was \<^verbatim>\<open>null\<close>, held a \<^verbatim>\<open>null\<close> comment or a
  creator id that cannot be converted).
\<close>

theorem exhausted_fallback_diagnostic:
  "((\<forall>v \<in> set (commentUrls pid). \<not> accepted N (fetch v 0)) \<longleftrightarrow>
      (\<exists>e lg. commentsHandler N fetch pid = (BadGateway e, lg)))
   \<and> (commentsHandler N fetch pid = (BadGateway e, lg) \<longrightarrow>
        lg = requestsOf N fetch (commentUrls pid)
        \<and> filter (\<lambda>u. \<not> isUserUrl u) lg = commentUrls pid
        \<and> e = Some (diagnostic N (commentUrls pid ! 2) (fetch (commentUrls pid ! 2) 0))
        \<and> ((\<exists>m. fetch (commentUrls pid ! 2) 0 = Throws m
                 \<and> e = Some (ThrownErr (commentUrls pid ! 2) (FetchError m)))
           \<or> (\<exists>st ctype t. fetch (commentUrls pid ! 2) 0 = Responds st ctype t
                 \<and> (e = Some (HttpErr (commentUrls pid ! 2) st
                               (toLowerCase (case ctype of Some h \<Rightarrow> h | None \<Rightarrow> []))
                               (take 250 t))
                    \<or> e = Some (ThrownErr (commentUrls pid ! 2) TypeError)))))"
proof -
  have all: "commentsHandler N fetch pid =
      (BadGateway (Some (diagnostic N (commentUrls pid ! 2) (fetch (commentUrls pid ! 2) 0))),
       requestsOf N fetch (commentUrls pid))"
    if "\<forall>v \<in> set (commentUrls pid). \<not> accepted N (fetch v 0)"
    using that by (rule handler_rejected)
  have none: "\<forall>v \<in> set (commentUrls pid). \<not> accepted N (fetch v 0)"
    if "commentsHandler N fetch pid = (BadGateway e', lg')" for e' lg'
  proof (rule ccontr)
    assume "\<not> (\<forall>v \<in> set (commentUrls pid). \<not> accepted N (fetch v 0))"
    then have "\<exists>rs lg. commentsHandler N fetch pid = (CommentsOk rs, lg)"
      unfolding handler_ok_iff by simp
    with that show False by auto
  qed
  have shape: "(\<exists>m. f = Throws m \<and> diagnostic N x f = ThrownErr x (FetchError m))
           \<or> (\<exists>st ctype t. f = Responds st ctype t
                 \<and> (diagnostic N x f = HttpErr x st
                               (toLowerCase (case ctype of Some h \<Rightarrow> h | None \<Rightarrow> []))
                               (take 250 t)
                    \<or> diagnostic N x f = ThrownErr x TypeError))" for f x
    by (cases f) (auto simp: diagnostic_def Let_def split: option.splits)
  have candidates: "filter (\<lambda>u. \<not> isUserUrl u) (requestsOf N fetch us) = us"
    if "\<forall>u \<in> set us. \<not> isUserUrl u" for us
    using that
  proof (induction us)
    case Nil
    then show ?case by (simp add: requestsOf_simps)
  next
    case (Cons u us)
    have "filter (\<lambda>u. \<not> isUserUrl u) (lookupsOf N (fetch u 0)) = []"
      using lookupsOf_user [of _ N "fetch u 0"] by (auto simp: filter_empty_conv)
    with Cons show ?case by (simp add: requestsOf_simps)
  qed
  show ?thesis
  proof (intro conjI impI)
    show "(\<forall>v \<in> set (commentUrls pid). \<not> accepted N (fetch v 0)) \<longleftrightarrow>
      (\<exists>e lg. commentsHandler N fetch pid = (BadGateway e, lg))"
      using all none by blast
  next
    assume h: "commentsHandler N fetch pid = (BadGateway e, lg)"
    from all [OF none [OF h]] h have
      e: "e = Some (diagnostic N (commentUrls pid ! 2) (fetch (commentUrls pid ! 2) 0))"
      and lg: "lg = requestsOf N fetch (commentUrls pid)"
      by simp_all
    show "lg = requestsOf N fetch (commentUrls pid)" by (rule lg)
    show "filter (\<lambda>u. \<not> isUserUrl u) lg = commentUrls pid"
      unfolding lg by (rule candidates [OF commentUrls_facts(2)])
    show "e = Some (diagnostic N (commentUrls pid ! 2) (fetch (commentUrls pid ! 2) 0))"
      by (rule e)
    show "(\<exists>m. fetch (commentUrls pid ! 2) 0 = Throws m
                 \<and> e = Some (ThrownErr (commentUrls pid ! 2) (FetchError m)))
           \<or> (\<exists>st ctype t. fetch (commentUrls pid ! 2) 0 = Responds st ctype t
                 \<and> (e = Some (HttpErr (commentUrls pid ! 2) st
                               (toLowerCase (case ctype of Some h \<Rightarrow> h | None \<Rightarrow> []))
                               (take 250 t))
                    \<or> e = Some (ThrownErr (commentUrls pid ! 2) TypeError)))"
      using shape [of "fetch (commentUrls pid ! 2) 0" "commentUrls pid ! 2"] unfolding e by simp
  qed
qed

lemma notFound_served:
  "commentsHandler sampleNode notFoundFetch ''7'' =
     (BadGateway (Some (HttpErr (commentUrls ''7'' ! 2) 404 ''text/html'' ''Not Found'')),
      commentUrls ''7'')"
  by code_simp

theorem exhausted_fallback_diagnostic_witness:
  "commentsHandler sampleNode notFoundFetch ''7'' =
     (BadGateway (Some (HttpErr (commentUrls ''7'' ! 2) 404 ''text/html'' ''Not Found'')),
      commentUrls ''7'')
   \<and> \<not> accepted sampleNode (notFoundFetch (commentUrls ''7'' ! 0) 0)
   \<and> \<not> accepted sampleNode (notFoundFetch (commentUrls ''7'' ! 1) 0)
   \<and> \<not> accepted sampleNode (notFoundFetch (commentUrls ''7'' ! 2) 0)
   \<and> commentUrls ''7'' = requestsOf sampleNode notFoundFetch (commentUrls ''7'')
   \<and> Some (HttpErr (commentUrls ''7'' ! 2) 404 ''text/html'' ''Not Found'')
       = Some (diagnostic sampleNode (commentUrls ''7'' ! 2) (notFoundFetch (commentUrls ''7'' ! 2) 0))"
proof -
  note T = exhausted_fallback_diagnostic [of "''7''" sampleNode notFoundFetch
      "Some (HttpErr (commentUrls ''7'' ! 2) 404 ''text/html'' ''Not Found'')" "commentUrls ''7''"]
  from T notFound_served have
    a: "\<forall>v \<in> set (commentUrls ''7''). \<not> accepted sampleNode (notFoundFetch v 0)"
    and l: "commentUrls ''7'' = requestsOf sampleNode notFoundFetch (commentUrls ''7'')"
    and d: "Some (HttpErr (commentUrls ''7'' ! 2) 404 ''text/html'' ''Not Found'')
       = Some (diagnostic sampleNode (commentUrls ''7'' ! 2) (notFoundFetch (commentUrls ''7'' ! 2) 0))"
    by blast+
  have "commentUrls ''7'' ! 0 \<in> set (commentUrls ''7'')" "commentUrls ''7'' ! 1 \<in> set (commentUrls ''7'')"
    "commentUrls ''7'' ! 2 \<in> set (commentUrls ''7'')"
    by (simp_all add: commentUrls_def)
  with a l d notFound_served show ?thesis
    by blast
qed

text \<open>
  Claim C6, as stated, fails when the last candidate's request throws: with the
  upstream unreachable the 502 carries the last URL and the error, and no status,
  content type or snippet.
\<close>

theorem network_down_diagnostic:
  "downFetch (commentUrls ''7'' ! 2) 0 = Throws ''ECONNREFUSED''
   \<and> commentsHandler sampleNode downFetch ''7'' =
     (BadGateway (Some (ThrownErr (commentUrls ''7'' ! 2) (FetchError ''ECONNREFUSED''))),
      commentUrls ''7'')"
  by code_simp

subsection \<open>Comments: avatar enrichment\<close>














subsection \<open>Creator ids that are not plain\<close>

text \<open>
  Where two different ids convert to one key, the avatar map holds the result of the
  later lookup for both: here the lookup for the number 5 finds an avatar, the lookup
  for the string \<^verbatim>\<open>5\<close>, the second request for the same URL, times out, and both
  comments are left without avatar. A creator id past the first ten that is the name of
  a member of \<^verbatim>\<open>Object.prototype\<close> reads that member.
\<close>

lemma shared_key_overwritten:
  "\<not> plainIds sampleNts (creatorIds sharedKeyDoc)
   \<and> avatarIdsOf (normalizedComments sharedKeyDoc) = [JNum 5, JStr ''5'']
   \<and> lookupResult sampleNode onceFetch [] (JNum 5) = JStr ''a.png''
   \<and> snd (served sampleNode onceFetch [] sharedKeyDoc)
       = [''https://e621.net/users/5.json'', ''https://e621.net/users/5.json'']
   \<and> map_sum id (map avatar_url) (fst (served sampleNode onceFetch [] sharedKeyDoc))
       = Inr [Plain JNull, Plain JNull]"
  by code_simp

lemma inherited_member_read:
  "\<not> plainIds sampleNts (creatorIds inheritedDoc)
   \<and> length (snd (served sampleNode avatarFetch [] inheritedDoc)) = 10
   \<and> map_sum id (map avatar_url) (fst (served sampleNode avatarFetch [] inheritedDoc))
       = Inr (replicate 10 (Plain (JStr ''a.png'')) @ [Builtin ''constructor''])"
  by code_simp

subsection \<open>Posts: an extension in capitals\<close>

lemma capitals_facts:
  "postsUrl sampleNode (JStr ''cat'') JUndefined JUndefined
     = Inr ''https://e621.net/posts.json?tags=cat -type:swf&page=1&limit=10''"
  "truthy capitalsPosts" "isArray (optChain capitalsPosts ''posts'')"
  "list_all extIsText (elems (optChain capitalsPosts ''posts''))"
  "filter (\<lambda>p. \<not> hasSwfExt p) (elems (optChain capitalsPosts ''posts'')) = []"
  "addPosts sampleBrowser (elems (optChain capitalsPosts ''posts'')) (initialFeed 100 False)
     = (None, initialFeed 100 False)"
  by code_simp+

theorem swf_excluded_witness:
  "finalTags sampleNts (JStr ''cat'') = Inr ''cat -type:swf''
   \<and> suffix '' -type:swf'' ''cat -type:swf''
   \<and> postsUrl sampleNode (JStr ''cat'') JUndefined JUndefined
       = Inr ''https://e621.net/posts.json?tags=cat -type:swf&page=1&limit=10''
   \<and> (\<exists>res. postsHandler sampleNode (\<lambda>url. Resolved capitalsPosts) (JStr ''cat'') JUndefined JUndefined
               = Inr res
         \<and> resStatus res = 200 \<and> optChain (resBody res) ''posts'' = JArr [])
   \<and> addPosts sampleBrowser (elems (optChain capitalsPosts ''posts'')) (initialFeed 100 False)
       = (None, initialFeed 100 False)
   \<and> map postId (cards (initialFeed 100 False)) = map postId (cards (initialFeed 100 False)) @ []
   \<and> postsHandler sampleNode scenarioUpstream JUndefined JUndefined JUndefined
       = Inr \<lparr> resStatus = 200, resBody = scenarioFiltered \<rparr>"
proof -
  have n: "nodeNumToString sampleNode = sampleNts" "numToString sampleBrowser = sampleNts"
    by (simp_all add: sampleNode_def sampleBrowser_def)
  note T = swf_excluded [where N = sampleNode and queryTags = "JStr ''cat''"
      and tags = "''cat -type:swf''" and t = "''cat''" and queryPage = JUndefined
      and queryLimit = JUndefined
      and url = "''https://e621.net/posts.json?tags=cat -type:swf&page=1&limit=10''"
      and fetchJson = "\<lambda>url. Resolved capitalsPosts" and data = capitalsPosts
      and B = sampleBrowser and ps = "elems (optChain capitalsPosts ''posts'')"
      and s = "initialFeed 100 False" and s' = "initialFeed 100 False",
      unfolded n capitals_facts(5)]
  have a: "finalTags sampleNts (JStr ''cat'') = Inr ''cat -type:swf''"
    using T by simp
  then have b: "suffix '' -type:swf'' ''cat -type:swf''"
    using T by blast
  have c: "\<exists>res. postsHandler sampleNode (\<lambda>url. Resolved capitalsPosts) (JStr ''cat'') JUndefined JUndefined
               = Inr res
         \<and> resStatus res = 200 \<and> optChain (resBody res) ''posts'' = JArr []"
    using T capitals_facts(1-4) by blast
  have d: "map postId (cards (initialFeed 100 False))
             = map postId (cards (initialFeed 100 False)) @ map (printedId sampleNts) []"
    using T capitals_facts(6) by blast
  from a b c d capitals_facts(1,6) scenario_proxied show ?thesis
    by simp
qed

end
